theory Spec2Isabelle
  imports Complex_Main "HOL-Library.Sublist" "HOL-Library.Product_Lexorder" "HOL-Library.Log_Nat"
begin

section \<open>JavaScript values\<close>

text \<open>
  The normalisation helpers of \<^verbatim>\<open>ReikanTenderAI.tsx\<close> take \<^verbatim>\<open>any\<close>-typed input that comes out of
  \<^verbatim>\<open>JSON.parse\<close>. A value is modelled by the datatype \<open>jsval\<close>. Strings are sequences of 8-bit
  code units read as Latin-1 (U+0000 to U+00FF), on which \<^verbatim>\<open>toLowerCase\<close>, \<^verbatim>\<open>trim\<close> and the
  regular-expression class \<^verbatim>\<open>\s\<close> are written out as ECMAScript defines them. A number is either
  \<open>NaN\<close>, an infinity or a finite value carried as an exact rational (negative zero is
  identified with zero: the code never divides by a weight and prints both as \<^verbatim>\<open>0\<close>).
  The selectors compare numbers and take the sign of a difference; the scorers compute, and
  their arithmetic is that of the doubles, defined in its own section.
  An object is an association list whose first binding of a key is the property's value.

  On such input the code can raise one exception only, a \<^verbatim>\<open>TypeError\<close>: a call of a string
  method on a value that has none, a conversion of an object that has no callable
  \<^verbatim>\<open>toString\<close>, a property read on \<^verbatim>\<open>null\<close>. A function that can raise it returns a
  sum, with the error on the left.
\<close>

datatype jsnum = NaN | NegInf | Fin rat | PosInf

datatype jsval =
    JUndefined
  | JNull
  | JBool bool
  | JNum jsnum
  | JStr string
  | JArr "jsval list"
  | JObj "(string \<times> jsval) list"

datatype error = TypeError

text \<open>
  The two conversions between numbers and strings (\<^verbatim>\<open>Number::toString\<close> and
  \<^verbatim>\<open>StringToNumber\<close>) are those of the host engine. They are parameters of the model.
\<close>

record runtime =
  numberToString :: "jsnum \<Rightarrow> string"
  stringToNumber :: "string \<Rightarrow> jsnum"

definition ebind :: "error + 'a \<Rightarrow> ('a \<Rightarrow> error + 'b) \<Rightarrow> error + 'b" where
  "ebind m f = (case m of Inl e \<Rightarrow> Inl e | Inr x \<Rightarrow> f x)"

fun esequence :: "(error + 'a) list \<Rightarrow> error + 'a list" where
  "esequence [] = Inr []"
| "esequence (m # ms) = ebind m (\<lambda>y. ebind (esequence ms) (\<lambda>ys. Inr (y # ys)))"

definition emap :: "('a \<Rightarrow> error + 'b) \<Rightarrow> 'a list \<Rightarrow> error + 'b list" where
  "emap f xs = esequence (map f xs)"

fun efold :: "('s \<Rightarrow> 'a \<Rightarrow> error + 's) \<Rightarrow> 's \<Rightarrow> 'a list \<Rightarrow> error + 's" where
  "efold f s [] = Inr s"
| "efold f s (x # xs) = ebind (f s x) (\<lambda>s'. efold f s' xs)"

fun truthy :: "jsval \<Rightarrow> bool" where
  "truthy JUndefined = False"
| "truthy JNull = False"
| "truthy (JBool b) = b"
| "truthy (JNum n) = (n \<noteq> NaN \<and> n \<noteq> Fin 0)"
| "truthy (JStr s) = (s \<noteq> [])"
| "truthy (JArr xs) = True"
| "truthy (JObj kvs) = True"

definition js_or :: "jsval \<Rightarrow> jsval \<Rightarrow> jsval" where
  "js_or a b = (if truthy a then a else b)"

definition nullish :: "jsval \<Rightarrow> jsval \<Rightarrow> jsval" where
  "nullish a b = (if a = JUndefined \<or> a = JNull then b else a)"

text \<open>
  \<^verbatim>\<open>v?.k\<close>, and \<^verbatim>\<open>v.k\<close> on a value that is neither \<^verbatim>\<open>null\<close> nor \<^verbatim>\<open>undefined\<close>. None of the
  property names the code reads is defined on a built-in prototype, so a primitive or an
  array answers \<^verbatim>\<open>undefined\<close>.
\<close>

fun get :: "jsval \<Rightarrow> string \<Rightarrow> jsval" where
  "get (JObj kvs) k = (case map_of kvs k of Some v \<Rightarrow> v | None \<Rightarrow> JUndefined)"
| "get v k = JUndefined"

definition get_strict :: "jsval \<Rightarrow> string \<Rightarrow> error + jsval" where
  "get_strict v k = (if v = JUndefined \<or> v = JNull then Inl TypeError else Inr (get v k))"

fun join :: "string \<Rightarrow> string list \<Rightarrow> string" where
  "join sep [] = []"
| "join sep [x] = x"
| "join sep (x # y # ys) = x @ sep @ join sep (y # ys)"

text \<open>
  \<^verbatim>\<open>ToString\<close>, as a template literal and \<^verbatim>\<open>Array.prototype.join\<close> apply it. An object parsed
  from JSON has no callable own property: with an own \<^verbatim>\<open>toString\<close> key the conversion to a
  primitive finds no method and throws, without one it yields \<^verbatim>\<open>[object Object]\<close>.
\<close>

fun to_string :: "runtime \<Rightarrow> jsval \<Rightarrow> error + string" where
  "to_string rt JUndefined = Inr ''undefined''"
| "to_string rt JNull = Inr ''null''"
| "to_string rt (JBool b) = Inr (if b then ''true'' else ''false'')"
| "to_string rt (JNum n) = Inr (numberToString rt n)"
| "to_string rt (JStr s) = Inr s"
| "to_string rt (JArr xs) =
     ebind (esequence (map (\<lambda>x. if x = JUndefined \<or> x = JNull then Inr [] else to_string rt x) xs))
       (\<lambda>ss. Inr (join '','' ss))"
| "to_string rt (JObj kvs) =
     (if ''toString'' \<in> fst ` set kvs then Inl TypeError else Inr ''[object Object]'')"

text \<open>\<^verbatim>\<open>v.toString()\<close>: reading a property of \<^verbatim>\<open>null\<close> or \<^verbatim>\<open>undefined\<close> throws.\<close>

definition toString_method :: "runtime \<Rightarrow> jsval \<Rightarrow> error + string" where
  "toString_method rt v =
     (if v = JUndefined \<or> v = JNull then Inl TypeError else to_string rt v)"

text \<open>\<^verbatim>\<open>Number(v)\<close>.\<close>

fun to_number :: "runtime \<Rightarrow> jsval \<Rightarrow> error + jsnum" where
  "to_number rt JUndefined = Inr NaN"
| "to_number rt JNull = Inr (Fin 0)"
| "to_number rt (JBool b) = Inr (Fin (if b then 1 else 0))"
| "to_number rt (JNum n) = Inr n"
| "to_number rt (JStr s) = Inr (stringToNumber rt s)"
| "to_number rt v = ebind (to_string rt v) (\<lambda>s. Inr (stringToNumber rt s))"

fun isFinite :: "jsnum \<Rightarrow> bool" where
  "isFinite (Fin q) = True"
| "isFinite n = False"

text \<open>\<^verbatim>\<open>a > b\<close> on numbers: false as soon as one side is \<open>NaN\<close>.\<close>

fun num_gt :: "jsnum \<Rightarrow> jsnum \<Rightarrow> bool" where
  "num_gt NaN b = False"
| "num_gt a NaN = False"
| "num_gt PosInf b = (b \<noteq> PosInf)"
| "num_gt NegInf b = False"
| "num_gt (Fin x) PosInf = False"
| "num_gt (Fin x) NegInf = True"
| "num_gt (Fin x) (Fin y) = (y < x)"

text \<open>
  \<^verbatim>\<open>a - b\<close> on numbers. The callers use the sign of the difference only, and the sign of a
  difference of two finite doubles is the sign of the exact difference.
\<close>

fun num_sub :: "jsnum \<Rightarrow> jsnum \<Rightarrow> jsnum" where
  "num_sub NaN b = NaN"
| "num_sub a NaN = NaN"
| "num_sub PosInf PosInf = NaN"
| "num_sub NegInf NegInf = NaN"
| "num_sub PosInf b = PosInf"
| "num_sub NegInf b = NegInf"
| "num_sub (Fin x) PosInf = NegInf"
| "num_sub (Fin x) NegInf = PosInf"
| "num_sub (Fin x) (Fin y) = Fin (x - y)"

fun num_pos :: "jsnum \<Rightarrow> bool" where
  "num_pos PosInf = True"
| "num_pos (Fin x) = (0 < x)"
| "num_pos n = False"

text \<open>
  \<^verbatim>\<open>Array.prototype.sort\<close> with a comparator. The sort is stable, and a comparator result that
  is \<open>NaN\<close> counts as zero. For a consistent comparator every stable sort returns the list
  computed here by insertion from the right; for an inconsistent one ECMAScript leaves the
  order to the engine, and the model fixes this one.
\<close>

fun sort_insert :: "('a \<Rightarrow> 'a \<Rightarrow> jsnum) \<Rightarrow> 'a \<Rightarrow> 'a list \<Rightarrow> 'a list" where
  "sort_insert cmp x [] = [x]"
| "sort_insert cmp x (y # ys) =
     (if num_pos (cmp x y) then y # sort_insert cmp x ys else x # y # ys)"

definition js_sort :: "('a \<Rightarrow> 'a \<Rightarrow> jsnum) \<Rightarrow> 'a list \<Rightarrow> 'a list" where
  "js_sort cmp xs = foldr (sort_insert cmp) xs []"

text \<open>The values of a \<^verbatim>\<open>Set\<close> built from a list, in insertion order.\<close>

fun set_values :: "'a list \<Rightarrow> 'a list \<Rightarrow> 'a list" where
  "set_values seen [] = []"
| "set_values seen (x # xs) =
     (if x \<in> set seen then set_values seen xs else x # set_values (x # seen) xs)"

text \<open>
  A \<^verbatim>\<open>Map\<close> keeps its keys in insertion order, and \<^verbatim>\<open>set\<close> on a key that is present replaces
  the value in place.
\<close>

fun map_set :: "('k \<times> 'v) list \<Rightarrow> 'k \<Rightarrow> 'v \<Rightarrow> ('k \<times> 'v) list" where
  "map_set [] k v = [(k, v)]"
| "map_set ((k', v') # m) k v = (if k' = k then (k, v) # m else (k', v') # map_set m k v)"

section \<open>Strings\<close>

definition is_ws :: "char \<Rightarrow> bool" where
  "is_ws c = (c \<in> set [CHR 0x09, CHR 0x0A, CHR 0x0B, CHR 0x0C, CHR 0x0D, CHR 0x20, CHR 0xA0])"

definition to_lower_char :: "char \<Rightarrow> char" where
  "to_lower_char c =
     (let n = (of_char c :: nat)
      in if (65 \<le> n \<and> n \<le> 90) \<or> (192 \<le> n \<and> n \<le> 222 \<and> n \<noteq> 215)
         then char_of (n + 32) else c)"

definition toLowerCase :: "string \<Rightarrow> string" where
  "toLowerCase s = map to_lower_char s"

definition trim :: "string \<Rightarrow> string" where
  "trim s = rev (dropWhile is_ws (rev (dropWhile is_ws s)))"

text \<open>\<^verbatim>\<open>s.replace(/\s+/g, " ")\<close>: every maximal run of white space becomes one space.\<close>

function collapse_ws :: "string \<Rightarrow> string" where
  "collapse_ws [] = []"
| "collapse_ws (c # cs) =
     (if is_ws c then CHR '' '' # collapse_ws (dropWhile is_ws cs) else c # collapse_ws cs)"
  by pat_completeness auto
termination
  by (relation "measure length") (auto simp: length_dropWhile_le less_Suc_eq_le)

definition normalizeText :: "string \<Rightarrow> string" where
  "normalizeText text = collapse_ws (trim (toLowerCase text))"

fun starts_with :: "string \<Rightarrow> string \<Rightarrow> bool" where
  "starts_with s [] = True"
| "starts_with [] (k # ks) = False"
| "starts_with (c # cs) (k # ks) = (c = k \<and> starts_with cs ks)"

text \<open>\<^verbatim>\<open>s.includes(k)\<close>.\<close>

fun str_includes :: "string \<Rightarrow> string \<Rightarrow> bool" where
  "str_includes [] k = (k = [])"
| "str_includes (c # cs) k = (starts_with (c # cs) k \<or> str_includes cs k)"

text \<open>\<^verbatim>\<open>v.trim()\<close> on an \<^verbatim>\<open>any\<close>-typed value: only a string has the method.\<close>

fun trim_method :: "jsval \<Rightarrow> error + string" where
  "trim_method (JStr s) = Inr (trim s)"
| "trim_method v = Inl TypeError"

definition PLACEHOLDERS :: "string list" where
  "PLACEHOLDERS = [''unbekannt'', ''unknown'', ''tbd'', ''n/a'', ''nicht vorhanden'',
     ''keine angabe'', ''unspecified'', ''...'', ''null'', ''none'', ''k.a.'']"

definition placeholder_text :: "string \<Rightarrow> bool" where
  "placeholder_text s =
     (let normalized = normalizeText s
      in length normalized < 3 \<or> normalized \<in> set PLACEHOLDERS)"

text \<open>
  \<^verbatim>\<open>isPlaceholder(text)\<close>: a falsy argument is a placeholder; otherwise
  \<^verbatim>\<open>text.toLowerCase()\<close> is called, which only a string has.
\<close>

definition is_placeholder :: "string \<Rightarrow> bool" where
  "is_placeholder s = (s = [] \<or> placeholder_text s)"

fun isPlaceholder :: "jsval \<Rightarrow> error + bool" where
  "isPlaceholder (JStr s) = Inr (is_placeholder s)"
| "isPlaceholder v = (if truthy v then Inl TypeError else Inr True)"

text \<open>\<^verbatim>\<open>mergeSourceDocuments(a, b)\<close>.\<close>

definition mergeSourceDocuments :: "jsval \<Rightarrow> jsval \<Rightarrow> error + string" where
  "mergeSourceDocuments a b =
     ebind (emap (\<lambda>value. trim_method (js_or value (JStr []))) (filter truthy [a, b]))
       (\<lambda>trimmed. Inr (join ''; '' (set_values [] (filter (\<lambda>value. length value > 0) trimmed))))"


section \<open>The selectors\<close>

record SourceInfo =
  si_text :: string
  source_document :: jsval
  source_chunk_id :: jsval
  detail :: "string option"

subsection \<open>pickTopRisks\<close>

record risk_entry =
  rk_text :: string
  rk_source_document :: jsval
  rk_source_chunk_id :: jsval
  rk_severity :: string
  rk_index :: nat

text \<open>
  \<^verbatim>\<open>severityRank[s] || 1\<close> as it enters the subtraction of the comparator. \<^verbatim>\<open>severityRank\<close> is an
  object literal, so a lookup also finds what it inherits from \<^verbatim>\<open>Object.prototype\<close>. The
  severity has been lower-cased, and the inherited names without an upper-case letter are
  \<^verbatim>\<open>constructor\<close> and \<^verbatim>\<open>__proto__\<close>: both give a truthy object, which the subtraction turns
  into \<open>NaN\<close>.
\<close>

definition severityRank :: "string \<Rightarrow> jsnum" where
  "severityRank s =
     (if s = ''high'' then Fin 3
      else if s = ''medium'' then Fin 2
      else if s = ''low'' then Fin 1
      else if s = ''constructor'' \<or> s = ''__proto__'' then NaN
      else Fin 1)"

definition risk_cmp :: "risk_entry \<Rightarrow> risk_entry \<Rightarrow> jsnum" where
  "risk_cmp a b =
     (let aRank = severityRank (rk_severity a);
          bRank = severityRank (rk_severity b);
          d = num_sub bRank aRank
      in if truthy (JNum d) then d else Fin (of_nat (rk_index a) - of_nat (rk_index b)))"

definition risk_step ::
  "runtime \<Rightarrow> jsval \<Rightarrow> (string \<times> risk_entry) list \<Rightarrow> nat \<times> jsval
     \<Rightarrow> error + (string \<times> risk_entry) list" where
  "risk_step rt metaSource deduped ir =
     (let index = fst ir; risk = snd ir in
      ebind (trim_method (js_or (get risk ''risk_de'') (js_or (get risk ''text'') (JStr [])))) (\<lambda>text.
      ebind (toString_method rt (js_or (get risk ''severity'') (JStr []))) (\<lambda>sev.
      let severity = toLowerCase sev in
      if text = [] \<or> is_placeholder text \<or> severity = [] then Inr deduped
      else
        let key = normalizeText text in
        if key = [] then Inr deduped
        else
          let source_document =
                js_or (get risk ''source_document'') (js_or metaSource (JStr []));
              source_chunk_id = nullish (get risk ''source_chunk_id'') JNull
          in (case map_of deduped key of
                Some existing \<Rightarrow>
                  ebind (mergeSourceDocuments (rk_source_document existing) source_document)
                    (\<lambda>merged. Inr (map_set deduped key
                        (existing\<lparr>rk_source_document := JStr merged\<rparr>)))
              | None \<Rightarrow>
                  Inr (map_set deduped key
                    \<lparr>rk_text = text, rk_source_document = source_document,
                     rk_source_chunk_id = source_chunk_id, rk_severity = severity,
                     rk_index = index\<rparr>)))))"

definition risk_out :: "risk_entry \<Rightarrow> SourceInfo" where
  "risk_out e =
     \<lparr>si_text = rk_text e, source_document = rk_source_document e,
      source_chunk_id = rk_source_chunk_id e, detail = None\<rparr>"

definition risks_deduped :: "runtime \<Rightarrow> jsval list \<Rightarrow> jsval \<Rightarrow> error + risk_entry list" where
  "risks_deduped rt risks metaSource =
     ebind (efold (risk_step rt metaSource) [] (enumerate 0 risks))
       (\<lambda>deduped. Inr (map snd deduped))"

definition pickTopRisks :: "runtime \<Rightarrow> jsval list \<Rightarrow> jsval \<Rightarrow> error + SourceInfo list" where
  "pickTopRisks rt risks metaSource =
     ebind (risks_deduped rt risks metaSource)
       (\<lambda>vals. Inr (map risk_out (take 5 (js_sort risk_cmp vals))))"

subsection \<open>pickTopRequirements\<close>

record req_entry =
  rq_text :: string
  rq_detail :: string
  rq_source_document :: jsval
  rq_source_chunk_id :: jsval
  rq_index :: nat

definition req_entry_of :: "nat \<times> jsval \<Rightarrow> error + req_entry" where
  "req_entry_of ir =
     (let index = fst ir; req = snd ir in
      ebind (trim_method (js_or (get req ''requirement_de'') (js_or (get req ''text'') (JStr [])))) (\<lambda>text.
      ebind (trim_method (js_or (get req ''explanation_de'')
               (js_or (get req ''explanation'') (js_or (get req ''description_de'') (JStr []))))) (\<lambda>detail.
      Inr \<lparr>rq_text = text, rq_detail = detail,
           rq_source_document = js_or (get req ''source_document'') (JStr []),
           rq_source_chunk_id = nullish (get req ''source_chunk_id'') JNull,
           rq_index = index\<rparr>)))"

definition req_cmp :: "string \<Rightarrow> req_entry \<Rightarrow> req_entry \<Rightarrow> jsnum" where
  "req_cmp primarySource a b =
     (let aPrimary = (if rq_source_document a = JStr primarySource then 0 else 1);
          bPrimary = (if rq_source_document b = JStr primarySource then 0 else 1);
          d = Fin (aPrimary - bPrimary)
      in if truthy (JNum d) then d else Fin (of_nat (rq_index a) - of_nat (rq_index b)))"

definition req_out :: "string \<Rightarrow> req_entry \<Rightarrow> SourceInfo" where
  "req_out primarySource req =
     \<lparr>si_text = rq_text req,
      source_document =
        js_or (rq_source_document req) (js_or (JStr primarySource) (JStr [])),
      source_chunk_id = rq_source_chunk_id req,
      detail = (if rq_detail req = [] then None else Some (rq_detail req))\<rparr>"

fun req_loop :: "string \<Rightarrow> string list \<Rightarrow> SourceInfo list \<Rightarrow> req_entry list \<Rightarrow> SourceInfo list" where
  "req_loop primarySource seen result [] = result"
| "req_loop primarySource seen result (req # rest) =
     (let key = normalizeText (rq_text req) in
      if key \<in> set seen then req_loop primarySource seen result rest
      else
        let result' = result @ [req_out primarySource req] in
        if length result' \<ge> 5 then result'
        else req_loop primarySource (key # seen) result' rest)"

definition pickTopRequirements :: "jsval list \<Rightarrow> jsval \<Rightarrow> error + SourceInfo list" where
  "pickTopRequirements requirements metaSource =
     ebind (trim_method (js_or metaSource (JStr []))) (\<lambda>primarySource.
     ebind (emap req_entry_of (enumerate 0 requirements)) (\<lambda>entries.
     let ordered = js_sort (req_cmp primarySource)
                     (filter (\<lambda>req. rq_text req \<noteq> [] \<and> \<not> is_placeholder (rq_text req)) entries)
     in Inr (req_loop primarySource [] [] ordered)))"

subsection \<open>pickTopCriteria\<close>

record crit_entry =
  cr_text :: string
  cr_weight :: jsnum
  cr_source_document :: jsval
  cr_source_chunk_id :: jsval

definition crit_step ::
  "runtime \<Rightarrow> jsval \<Rightarrow> (string \<times> crit_entry) list \<Rightarrow> jsval
     \<Rightarrow> error + (string \<times> crit_entry) list" where
  "crit_step rt metaSource seen crit =
     ebind (trim_method (js_or (get crit ''criterion_de'') (js_or (get crit ''text'') (JStr [])))) (\<lambda>text.
     if text = [] \<or> is_placeholder text then Inr seen
     else
       ebind (to_number rt (nullish (get crit ''weight_percent'') (JNum (Fin 0)))) (\<lambda>weight.
       if isFinite weight \<and> weight = Fin 0 then Inr seen
       else
         let key = normalizeText text;
             source_document =
               js_or (get crit ''source_document'') (js_or metaSource (JStr []));
             source_chunk_id = nullish (get crit ''source_chunk_id'') JNull;
             fresh = \<lparr>cr_text = text, cr_weight = weight,
                      cr_source_document = source_document,
                      cr_source_chunk_id = source_chunk_id\<rparr>
         in (case map_of seen key of
               None \<Rightarrow> Inr (map_set seen key fresh)
             | Some existing \<Rightarrow>
                 if num_gt weight (cr_weight existing) then Inr (map_set seen key fresh)
                 else
                   ebind (mergeSourceDocuments (cr_source_document existing) source_document)
                     (\<lambda>merged. Inr (map_set seen key
                         (existing\<lparr>cr_source_document := JStr merged\<rparr>))))))"

definition crit_cmp :: "crit_entry \<Rightarrow> crit_entry \<Rightarrow> jsnum" where
  "crit_cmp a b = num_sub (cr_weight b) (cr_weight a)"

definition crit_out :: "runtime \<Rightarrow> crit_entry \<Rightarrow> SourceInfo" where
  "crit_out rt item =
     \<lparr>si_text =
        (if truthy (JNum (cr_weight item))
         then cr_text item @ '' ('' @ numberToString rt (cr_weight item) @ ''%)''
         else cr_text item),
      source_document = cr_source_document item,
      source_chunk_id = cr_source_chunk_id item,
      detail = None\<rparr>"

definition pickTopCriteria :: "runtime \<Rightarrow> jsval list \<Rightarrow> jsval \<Rightarrow> error + SourceInfo list" where
  "pickTopCriteria rt criteria metaSource =
     ebind (efold (crit_step rt metaSource) [] criteria)
       (\<lambda>seen. Inr (map (crit_out rt) (take 5 (js_sort crit_cmp (map snd seen)))))"

subsection \<open>pickTopStrings\<close>

definition string_step :: "(string \<times> string) list \<Rightarrow> jsval \<Rightarrow> error + (string \<times> string) list" where
  "string_step deduped item =
     ebind (trim_method (case item of JStr s \<Rightarrow> item | _ \<Rightarrow> js_or (get item ''text'') (JStr []))) (\<lambda>text.
     if text = [] \<or> is_placeholder text then Inr deduped
     else
       let key = normalizeText text in
       if map_of deduped key = None then Inr (map_set deduped key text) else Inr deduped)"

definition pickTopStrings :: "jsval list \<Rightarrow> nat \<Rightarrow> error + string list" where
  "pickTopStrings items limit =
     ebind (efold string_step [] items) (\<lambda>deduped. Inr (take limit (map snd deduped)))"

subsection \<open>buildTimelineSteps\<close>

record step_entry =
  st_title_de :: string
  st_description_de :: string
  st_days_de :: string
  st_source_document :: jsval
  st_source_chunk_id :: jsval
  st_index :: int

record process_step =
  step :: nat
  title_de :: string
  description_de :: string
  days_de :: string
  ps_source_document :: jsval
  ps_source_chunk_id :: jsval

record bucket =
  key :: string
  label :: string
  keywords_of :: "string list"

definition buckets :: "bucket list" where
  "buckets =
     [\<lparr>key = ''preparation'', label = ''Vorbereitung'',
       keywords_of = [''vorbereitung'', ''planung'', ''beschaffung'', ''bereitstellung'']\<rparr>,
      \<lparr>key = ''review'', label = ''Interne Freigabe/Review'',
       keywords_of = [''freigabe'', ''review'', ''pr'' @ [CHR 0xFC] @ ''fung'', ''genehmigung'']\<rparr>,
      \<lparr>key = ''submission'', label = ''Angebotsabgabe'',
       keywords_of = [''abgabe'', ''einreich'', ''submission'', ''angebot'']\<rparr>,
      \<lparr>key = ''clarifications'', label = ''Nachforderungen'',
       keywords_of = [''nachforderung'', ''kl'' @ [CHR 0xE4] @ ''rung'',
                   ''r'' @ [CHR 0xFC] @ ''ckfrage'', ''clarification'']\<rparr>,
      \<lparr>key = ''award'', label = ''Zuschlag'',
       keywords_of = [''zuschlag'', ''vergabeentscheidung'', ''entscheidung'', ''award'']\<rparr>,
      \<lparr>key = ''execution'', label = ''Leistungsbeginn'',
       keywords_of = [''leistungsbeginn'', ''ausf'' @ [CHR 0xFC] @ ''hrung'', ''beginn'', ''start'']\<rparr>]"

definition step_entry_of :: "jsval \<Rightarrow> nat \<times> jsval \<Rightarrow> error + step_entry" where
  "step_entry_of metaSource ir =
     (let index = fst ir; step = snd ir in
      ebind (trim_method (js_or (get step ''title_de'') (JStr []))) (\<lambda>title.
      ebind (trim_method (js_or (get step ''description_de'') (JStr []))) (\<lambda>description.
      ebind (trim_method (js_or (get step ''days_de'') (JStr []))) (\<lambda>days.
      Inr \<lparr>st_title_de = title, st_description_de = description, st_days_de = days,
           st_source_document =
             js_or (get step ''source_document'') (js_or metaSource (JStr [])),
           st_source_chunk_id = nullish (get step ''source_chunk_id'') JNull,
           st_index = int index\<rparr>))))"

definition validSteps :: "jsval list \<Rightarrow> jsval \<Rightarrow> error + step_entry list" where
  "validSteps steps metaSource =
     ebind (emap (step_entry_of metaSource) (enumerate 0 steps)) (\<lambda>entries.
     Inr (filter (\<lambda>step. st_title_de step \<noteq> [] \<and> \<not> is_placeholder (st_title_de step)) entries))"

definition haystack_of :: "step_entry \<Rightarrow> string" where
  "haystack_of s = normalizeText (st_title_de s @ '' '' @ st_description_de s)"

definition find_bucket :: "step_entry \<Rightarrow> bucket option" where
  "find_bucket s =
     find (\<lambda>b. \<exists>keyword \<in> set (keywords_of b). str_includes (haystack_of s) keyword) buckets"

definition bucket_step :: "(string \<rightharpoonup> step_entry) \<Rightarrow> step_entry \<Rightarrow> (string \<rightharpoonup> step_entry)" where
  "bucket_step bucketed s =
     (case find_bucket s of
        None \<Rightarrow> bucketed
      | Some b \<Rightarrow> (if bucketed (key b) = None then bucketed(key b \<mapsto> s) else bucketed))"

definition MAX_SAFE_INTEGER :: int where
  "MAX_SAFE_INTEGER = 9007199254740991"

definition synthesized_step :: "string \<Rightarrow> jsval \<Rightarrow> jsval \<Rightarrow> step_entry" where
  "synthesized_step deadline timeline metaSource =
     \<lparr>st_title_de = ''Angebotsabgabe'',
      st_description_de = ''Abgabefrist: '' @ deadline,
      st_days_de = [],
      st_source_document =
        js_or (get timeline ''source_document'') (js_or metaSource (JStr [])),
      st_source_chunk_id = JNull,
      st_index = MAX_SAFE_INTEGER\<rparr>"

definition synthesize_submission ::
  "runtime \<Rightarrow> jsval \<Rightarrow> jsval \<Rightarrow> (string \<rightharpoonup> step_entry) \<Rightarrow> error + (string \<rightharpoonup> step_entry)" where
  "synthesize_submission rt timeline metaSource bucketed =
     (if bucketed ''submission'' = None \<and> truthy (get timeline ''submission_deadline_de'')
      then ebind (to_string rt (get timeline ''submission_deadline_de'')) (\<lambda>deadline.
           Inr (bucketed(''submission'' \<mapsto> synthesized_step deadline timeline metaSource)))
      else Inr bucketed)"

definition step_out :: "nat \<times> step_entry \<Rightarrow> process_step" where
  "step_out p =
     (let idx = fst p; s = snd p in
      \<lparr>step = idx + 1, title_de = st_title_de s, description_de = st_description_de s,
       days_de = st_days_de s, ps_source_document = st_source_document s,
       ps_source_chunk_id = st_source_chunk_id s\<rparr>)"

definition buildTimelineSteps ::
  "runtime \<Rightarrow> jsval list \<Rightarrow> jsval \<Rightarrow> jsval \<Rightarrow> error + process_step list" where
  "buildTimelineSteps rt steps timeline metaSource =
     ebind (validSteps steps metaSource) (\<lambda>valid.
     ebind (synthesize_submission rt timeline metaSource (foldl bucket_step Map.empty valid)) (\<lambda>bucketed.
     Inr (map step_out (enumerate 0
            (take 6 (List.map_filter (\<lambda>b. bucketed (key b)) buckets))))))"

section \<open>mapSummaryToTender\<close>

record BatchSummary =
  run_id :: string
  ui_json :: jsval
  total_files :: nat
  success_files :: nat
  failed_files :: nat
  status :: string

record BatchSummaryPayload =
  batchId :: string
  summary :: BatchSummary

record ScopeSource =
  sc_text :: jsval
  sc_source_document :: jsval
  sc_source_chunk_id :: jsval

record TenderSources =
  src_title :: jsval
  src_buyer :: jsval
  src_mustCriteria :: jsval
  src_logistics :: jsval
  src_deadline :: jsval
  src_certifications :: jsval
  src_scopeOfWork :: jsval
  src_pricingModel :: jsval
  src_penalties :: jsval
  src_evaluationCriteria :: jsval
  src_submission :: jsval
  src_legalRisks :: jsval

text \<open>
  The fields of \<^verbatim>\<open>Tender\<close> that \<^verbatim>\<open>mapSummaryToTender\<close> sets. The optional fields it leaves
  out (\<^verbatim>\<open>runId\<close>, \<^verbatim>\<open>tenderId\<close>, \<^verbatim>\<open>status\<close>, the dates and the three percentages) are not part
  of the record. The field \<open>score\<close> is a number as the scorer reads it, which is \<open>NaN\<close> for
  a tender object that came without one.
\<close>

record Tender =
  tender_id :: jsval
  title :: jsval
  buyer :: jsval
  region :: jsval
  deadline :: jsval
  url :: string
  score :: jsnum
  legalRisks :: "string list"
  legalRisksWithSource :: "SourceInfo list"
  mustHits :: nat
  mustTotal :: nat
  canHits :: nat
  canTotal :: nat
  serviceTypes :: "string list"
  scopeOfWork :: jsval
  scopeOfWorkSource :: ScopeSource
  submission :: "string list"
  submissionWithSource :: "SourceInfo list"
  certifications :: "string list"
  evaluationCriteria :: "string list"
  evaluationCriteriaWithSource :: "SourceInfo list"
  safety :: "jsval list"
  penalties :: "string list"
  processSteps :: "process_step list"
  projectDuration :: jsval
  economicAnalysis :: jsval
  missingEvidence :: "string list"
  missingEvidenceWithSource :: "SourceInfo list"
  sources :: TenderSources

text \<open>
  \<^verbatim>\<open>JSON.parse(JSON.stringify(v))\<close> on data that \<^verbatim>\<open>response.json()\<close> produced: a number that
  is not finite comes back as \<^verbatim>\<open>null\<close>, an \<^verbatim>\<open>undefined\<close> array element as \<^verbatim>\<open>null\<close>. Parsed
  JSON holds no \<^verbatim>\<open>undefined\<close> property value; the model leaves one in place, where it reads
  as \<^verbatim>\<open>undefined\<close> like the absent property the clone would make of it.
\<close>

fun json_clone :: "jsval \<Rightarrow> jsval" where
  "json_clone (JNum n) = (if isFinite n then JNum n else JNull)"
| "json_clone (JArr xs) = JArr (map (\<lambda>x. if x = JUndefined then JNull else json_clone x) xs)"
| "json_clone (JObj kvs) = JObj (map (\<lambda>p. (fst p, json_clone (snd p))) kvs)"
| "json_clone v = v"

definition array_or_empty :: "jsval \<Rightarrow> jsval list" where
  "array_or_empty v = (case v of JArr xs \<Rightarrow> xs | _ \<Rightarrow> [])"

definition the_string :: "jsval \<Rightarrow> string" where
  "the_string v = (case v of JStr s \<Rightarrow> s | _ \<Rightarrow> [])"

definition evidence_entry :: "jsval \<Rightarrow> jsval \<Rightarrow> error + SourceInfo option" where
  "evidence_entry meta doc =
     (let text = js_or (get doc ''document_de'') (get doc ''text'');
          doc_source = js_or (get doc ''source_document'')
                         (js_or (get meta ''source_document'') (JStr []));
          chunk = nullish (get doc ''source_chunk_id'') JNull
      in if \<not> truthy text then Inr None
         else ebind (isPlaceholder text) (\<lambda>p.
           if p then Inr None
           else Inr (Some \<lparr>si_text = the_string text, source_document = doc_source,
                           source_chunk_id = chunk, detail = None\<rparr>)))"

definition first_source :: "SourceInfo list \<Rightarrow> jsval" where
  "first_source xs = (case xs of [] \<Rightarrow> JUndefined | x # _ \<Rightarrow> source_document x)"

definition mapSummaryToTender :: "runtime \<Rightarrow> BatchSummaryPayload \<Rightarrow> error + Tender" where
  "mapSummaryToTender rt payload =
     (let uiJson = json_clone (js_or (ui_json (summary payload)) (JObj [])) in
      ebind (get_strict uiJson ''meta'') (\<lambda>meta_raw.
      let meta = js_or meta_raw (JObj []);
          executive = js_or (get uiJson ''executive_summary'') (JObj []);
          timeline = js_or (get uiJson ''timeline_milestones'') (JObj []);
          requirements = array_or_empty (get uiJson ''mandatory_requirements'');
          risks = array_or_empty (get uiJson ''risks'');
          serviceTypesRaw = array_or_empty (get uiJson ''service_types'');
          evaluationCriteriaRaw = array_or_empty (get uiJson ''evaluation_criteria'');
          safetyRaw = array_or_empty (get uiJson ''safety_requirements'');
          penaltiesRaw = array_or_empty (get uiJson ''contract_penalties'');
          certificationsRaw = array_or_empty (get uiJson ''certifications_required'');
          processStepsRaw = array_or_empty (get uiJson ''process_steps'');
          missingEvidenceRaw = array_or_empty (get uiJson ''missing_evidence_documents'');
          metaSource = get meta ''source_document'';
          execSource = get executive ''source_document''
      in
      ebind (pickTopRequirements requirements metaSource) (\<lambda>submissionWS.
      ebind (pickTopRisks rt risks metaSource) (\<lambda>legalRisksWS.
      ebind (pickTopCriteria rt evaluationCriteriaRaw metaSource) (\<lambda>evaluationCriteriaWS.
      ebind (emap (evidence_entry meta) missingEvidenceRaw) (\<lambda>evidence.
      let missingEvidenceWS = List.map_filter (\<lambda>x. x) evidence in
      ebind (pickTopStrings penaltiesRaw 5) (\<lambda>penaltiesTop.
      ebind (pickTopStrings certificationsRaw 5) (\<lambda>certificationsTop.
      ebind (buildTimelineSteps rt processStepsRaw timeline metaSource) (\<lambda>timelineSteps.
      ebind (pickTopStrings serviceTypesRaw 7) (\<lambda>serviceTypesTop.
      Inr \<lparr>tender_id = js_or (get meta ''tender_id'')
                         (js_or (JStr (run_id (summary payload))) (JStr (batchId payload))),
           title = js_or (get meta ''tender_title'')
                     (js_or (get executive ''title_de'')
                        (js_or (get meta ''tender_id'') (JStr ''Missing Title''))),
           buyer = js_or (get meta ''organization'')
                     (js_or (get executive ''organization_de'') (JStr ''Missing Organization'')),
           region = js_or (get executive ''location_de'') (JStr ''DE''),
           deadline = js_or (get timeline ''submission_deadline_de'') JNull,
           url = [],
           score = Fin 85,
           legalRisks = map si_text legalRisksWS,
           legalRisksWithSource = legalRisksWS,
           mustHits = min (length requirements) 5,
           mustTotal = min (length requirements) 5,
           canHits = 0,
           canTotal = 0,
           serviceTypes = serviceTypesTop,
           scopeOfWork = js_or (get executive ''brief_description_de'') (JStr []),
           scopeOfWorkSource =
             \<lparr>sc_text = js_or (get executive ''brief_description_de'') (JStr []),
              sc_source_document = js_or execSource (js_or metaSource (JStr [])),
              sc_source_chunk_id = JNull\<rparr>,
           submission = map si_text submissionWS,
           submissionWithSource = submissionWS,
           certifications = certificationsTop,
           evaluationCriteria = map si_text evaluationCriteriaWS,
           evaluationCriteriaWithSource = evaluationCriteriaWS,
           safety = safetyRaw,
           penalties = penaltiesTop,
           processSteps = timelineSteps,
           projectDuration = js_or (get timeline ''project_duration_de'') JNull,
           economicAnalysis = js_or (get uiJson ''economic_analysis'') JUndefined,
           missingEvidence = map si_text missingEvidenceWS,
           missingEvidenceWithSource = missingEvidenceWS,
           sources =
             \<lparr>src_title = js_or metaSource (JStr []),
              src_buyer = js_or metaSource (js_or execSource (JStr [])),
              src_mustCriteria = js_or (first_source submissionWS) (js_or metaSource (JStr [])),
              src_logistics = js_or execSource (js_or metaSource (JStr [])),
              src_deadline = js_or (get timeline ''source_document'') (js_or metaSource (JStr [])),
              src_certifications = js_or metaSource (JStr []),
              src_scopeOfWork = js_or execSource (js_or metaSource (JStr [])),
              src_pricingModel = JStr [],
              src_penalties = js_or metaSource (JStr []),
              src_evaluationCriteria =
                js_or (first_source evaluationCriteriaWS) (js_or metaSource (JStr [])),
              src_submission = js_or (first_source submissionWS) (js_or metaSource (JStr [])),
              src_legalRisks = js_or (first_source legalRisksWS) (js_or metaSource (JStr []))\<rparr>\<rparr>))))))))))"

section \<open>Double-precision arithmetic\<close>

text \<open>
  The scorers compute with JavaScript numbers, which are IEEE 754 binary64 values. A finite
  double is carried as the rational it denotes. An arithmetic operation on finite operands
  takes the exact result and rounds it to the nearest double, a tie to the one with the
  even significand: \<open>rd\<close> rounds a rational to 53 significant bits, with the spacing
  \<open>2^-1074\<close> of the subnormal numbers below \<open>2^-1022\<close>, and \<open>fl\<close> turns a rounded value
  beyond the largest double into an infinity. The operations on \<open>NaN\<close> and the infinities
  are written out. The two zeros are not told apart: the scorers print their result and
  compare it with \<^verbatim>\<open>===\<close> and \<^verbatim>\<open><\<close>, which do not tell them apart either, and the only
  divisors are the constant 30 and a number that \<^verbatim>\<open>pct\<close> has compared with zero before.
\<close>

text \<open>Rounding to the nearest integer, a tie to the even one.\<close>

definition rne :: "rat \<Rightarrow> int" where
  "rne y = (let f = floor y; r = y - of_int f
            in if r < 1 / 2 then f else if 1 / 2 < r then f + 1 else if even f then f else f + 1)"

text \<open>The binary exponent of a positive rational: \<open>2^e \<le> x < 2^(e+1)\<close>.\<close>

definition expo :: "rat \<Rightarrow> int" where
  "expo x = (if 1 \<le> x then bitlen (floor x) - 1 else - bitlen (ceiling (1 / x) - 1))"

definition rd_pos :: "rat \<Rightarrow> rat" where
  "rd_pos x = (let e = max (expo x) (- 1022); q = 2 powi (e - 52) in of_int (rne (x / q)) * q)"

definition rd :: "rat \<Rightarrow> rat" where
  "rd x = (if x = 0 then 0 else if 0 < x then rd_pos x else - rd_pos (- x))"

definition MAX_VALUE :: rat where
  "MAX_VALUE = (2 ^ 53 - 1) * 2 ^ 971"

definition fl :: "rat \<Rightarrow> jsnum" where
  "fl x = (let r = rd x in if MAX_VALUE < r then PosInf else if r < - MAX_VALUE then NegInf else Fin r)"

fun dneg :: "jsnum \<Rightarrow> jsnum" where
  "dneg NaN = NaN"
| "dneg PosInf = NegInf"
| "dneg NegInf = PosInf"
| "dneg (Fin x) = Fin (- x)"

text \<open>\<^verbatim>\<open>a + b\<close>.\<close>

fun dadd :: "jsnum \<Rightarrow> jsnum \<Rightarrow> jsnum" where
  "dadd (Fin x) (Fin y) = fl (x + y)"
| "dadd NaN b = NaN"
| "dadd a NaN = NaN"
| "dadd PosInf NegInf = NaN"
| "dadd NegInf PosInf = NaN"
| "dadd PosInf b = PosInf"
| "dadd NegInf b = NegInf"
| "dadd (Fin x) b = b"

text \<open>\<^verbatim>\<open>a - b\<close>.\<close>

definition dsub :: "jsnum \<Rightarrow> jsnum \<Rightarrow> jsnum" where
  "dsub a b = dadd a (dneg b)"

text \<open>The sign of a number that is not \<open>NaN\<close>.\<close>

fun dsgn :: "jsnum \<Rightarrow> int" where
  "dsgn (Fin x) = (if x = 0 then 0 else if 0 < x then 1 else - 1)"
| "dsgn PosInf = 1"
| "dsgn NegInf = - 1"
| "dsgn NaN = 0"

definition signed_inf :: "int \<Rightarrow> jsnum" where
  "signed_inf s = (if s = 0 then NaN else if 0 < s then PosInf else NegInf)"

text \<open>\<^verbatim>\<open>a * b\<close>.\<close>

fun dmul :: "jsnum \<Rightarrow> jsnum \<Rightarrow> jsnum" where
  "dmul (Fin x) (Fin y) = fl (x * y)"
| "dmul NaN b = NaN"
| "dmul a NaN = NaN"
| "dmul a b = signed_inf (dsgn a * dsgn b)"

text \<open>\<^verbatim>\<open>a / b\<close>, a zero divisor taken as the positive zero.\<close>

fun ddiv :: "jsnum \<Rightarrow> jsnum \<Rightarrow> jsnum" where
  "ddiv (Fin x) (Fin y) = (if y = 0 then signed_inf (dsgn (Fin x)) else fl (x / y))"
| "ddiv NaN b = NaN"
| "ddiv a NaN = NaN"
| "ddiv (Fin x) b = Fin 0"
| "ddiv a (Fin y) = signed_inf (dsgn a * (if y < 0 then - 1 else 1))"
| "ddiv a b = NaN"

text \<open>\<^verbatim>\<open>Math.max(a, b)\<close> and \<^verbatim>\<open>Math.min(a, b)\<close>: \<open>NaN\<close> as soon as one argument is.\<close>

fun Math_max :: "jsnum \<Rightarrow> jsnum \<Rightarrow> jsnum" where
  "Math_max NaN b = NaN"
| "Math_max a NaN = NaN"
| "Math_max PosInf b = PosInf"
| "Math_max a PosInf = PosInf"
| "Math_max NegInf b = b"
| "Math_max a NegInf = a"
| "Math_max (Fin x) (Fin y) = Fin (max x y)"

fun Math_min :: "jsnum \<Rightarrow> jsnum \<Rightarrow> jsnum" where
  "Math_min NaN b = NaN"
| "Math_min a NaN = NaN"
| "Math_min NegInf b = NegInf"
| "Math_min a NegInf = NegInf"
| "Math_min PosInf b = b"
| "Math_min a PosInf = a"
| "Math_min (Fin x) (Fin y) = Fin (min x y)"

text \<open>
  \<^verbatim>\<open>Math.round(x)\<close>: the integer nearest to \<open>x\<close>, a tie upwards, which is \<open>\<lfloor>x + 1/2\<rfloor>\<close>
  taken exactly. It is a double whenever \<open>x\<close> is one.
\<close>

fun Math_round :: "jsnum \<Rightarrow> jsnum" where
  "Math_round (Fin x) = Fin (of_int (floor (x + 1 / 2)))"
| "Math_round n = n"

section \<open>The scorers\<close>

text \<open>
  A number literal denotes the double nearest to it: \<^verbatim>\<open>0.4\<close> is \<open>fl (2 / 5)\<close>, and an
  integer literal is itself.
\<close>

definition pct :: "jsnum \<Rightarrow> jsnum \<Rightarrow> jsnum" where
  "pct hits total_n =
     (if total_n = Fin 0 then Fin 0 else Math_round (ddiv (dmul (Fin 100) hits) total_n))"

text \<open>The \<^verbatim>\<open>id\<close> fields of \<^verbatim>\<open>REQUIRED_Q\<close>, the only ones a scorer reads.\<close>

definition REQUIRED_Q :: "string list" where
  "REQUIRED_Q = [''experience'', ''fleetCapacity'', ''equipmentTypes'', ''logistics'',
     ''operators'', ''maintenance'', ''safety'', ''emergency'']"

text \<open>\<^verbatim>\<open>!(answers[q.id]?.trim())\<close> on a \<^verbatim>\<open>Record<string, string>\<close>.\<close>

definition unanswered :: "(string \<rightharpoonup> string) \<Rightarrow> string \<Rightarrow> bool" where
  "unanswered answers q = (case answers q of None \<Rightarrow> True | Some a \<Rightarrow> trim a = [])"

text \<open>
  \<^verbatim>\<open>tender\<close> is \<open>None\<close> for \<^verbatim>\<open>null\<close>. The field \<open>score\<close> is the number that
  \<^verbatim>\<open>tender.score - docPenalty\<close> computes with: \<open>NaN\<close> for a tender object that has no score,
  as \<^verbatim>\<open>undefined\<close> converts to it.
\<close>

definition computeWinProbability ::
  "Tender option \<Rightarrow> jsnum \<Rightarrow> (string \<rightharpoonup> string) \<Rightarrow> jsnum \<Rightarrow> jsnum" where
  "computeWinProbability tender missingCount answers mustPct =
     (case tender of
        None \<Rightarrow> Fin 0
      | Some t \<Rightarrow>
          let docPenalty = dmul missingCount (Fin 4);
              qMissing = length (filter (unanswered answers) REQUIRED_Q);
              qPenalty = dmul (Fin (of_nat qMissing)) (Fin 3);
              base = Math_max (Fin 0) (dsub (dsub (score t) docPenalty) qPenalty);
              mustBoost = Math_round (dmul mustPct (fl (1 / 5)))
          in Math_max (Fin 1) (Math_min (Fin 99)
               (Math_round (dadd (dmul (dadd base mustBoost) (fl (9 / 10))) (Fin 5)))))"

text \<open>
  \<^verbatim>\<open>/Hamburg|Bremen|Hannover|Berlin|M.nchen|K.ln|Stuttgart|Depot/i.test(s)\<close>, where the two
  dots stand for the code units 0xFC and 0xF6 of the umlauts. The pattern is a
  choice of literal words, tried at every position of the input. Under the flag \<^verbatim>\<open>i\<close> two
  code units match when they canonicalise to the same unit, which on Latin-1 is to have the
  same lower-case form.
\<close>

definition regionalDepots_words :: "string list" where
  "regionalDepots_words = [''Hamburg'', ''Bremen'', ''Hannover'', ''Berlin'',
     ''M'' @ [CHR 0xFC] @ ''nchen'', ''K'' @ [CHR 0xF6] @ ''ln'', ''Stuttgart'', ''Depot'']"

fun match_here :: "string \<Rightarrow> string \<Rightarrow> bool" where
  "match_here [] s = True"
| "match_here (p # ps) [] = False"
| "match_here (p # ps) (c # cs) = (to_lower_char p = to_lower_char c \<and> match_here ps cs)"

fun regex_test :: "string list \<Rightarrow> string \<Rightarrow> bool" where
  "regex_test words [] = (\<exists>w \<in> set words. match_here w [])"
| "regex_test words (c # cs) = ((\<exists>w \<in> set words. match_here w (c # cs)) \<or> regex_test words cs)"

definition routeFeasibilityScore :: "jsnum \<Rightarrow> jsnum \<Rightarrow> string \<Rightarrow> jsnum" where
  "routeFeasibilityScore distanceKm projectDays fleetStr =
     (let regionalDepots = (if regex_test regionalDepots_words fleetStr then Fin 1 else Fin 0);
          distancePenalty = dmul (Math_max (Fin 0) (dsub distanceKm (Fin 50))) (fl (2 / 5));
          durationBonus = Math_min (Fin 10) (dmul (ddiv projectDays (Fin 30)) (Fin 2));
          raw = dadd (dadd (dsub (Fin 100) distancePenalty) durationBonus)
                  (dmul regionalDepots (Fin 8))
      in Math_max (Fin 0) (Math_min (Fin 100) (Math_round raw)))"

section \<open>Reference notions for the statements\<close>

text \<open>
  The runtime used where a statement needs a concrete one. It prints an integer in decimal,
  as every engine does below \<open>10^21\<close>, and reads an unsigned decimal integer; the
  empty and the blank string read as 0. It does not model the rest of the two conversions: a
  fraction is printed as its integer part, and every other string reads as \<open>NaN\<close>, where
  an engine also reads signs, fractions, exponents, other radices and \<^verbatim>\<open>Infinity\<close>. No
  statement below applies it outside the integers. The theorems that mention a runtime
  \<open>rt\<close> hold for every runtime.
\<close>

fun digits :: "nat \<Rightarrow> string" where
  "digits n = (if n < 10 then [char_of (48 + n)] else digits (n div 10) @ [char_of (48 + n mod 10)])"

definition show_int :: "int \<Rightarrow> string" where
  "show_int i = (if i < 0 then ''-'' @ digits (nat (- i)) else digits (nat i))"

fun read_digits :: "nat \<Rightarrow> string \<Rightarrow> nat option" where
  "read_digits acc [] = Some acc"
| "read_digits acc (c # cs) =
     (let n = (of_char c :: nat)
      in if 48 \<le> n \<and> n \<le> 57 then read_digits (10 * acc + (n - 48)) cs else None)"

definition integer_runtime :: runtime where
  "integer_runtime =
     \<lparr>numberToString = (\<lambda>n. case n of
          NaN \<Rightarrow> ''NaN'' | PosInf \<Rightarrow> ''Infinity'' | NegInf \<Rightarrow> ''-Infinity''
        | Fin q \<Rightarrow> show_int (floor q)),
      stringToNumber = (\<lambda>s. case trim s of
          [] \<Rightarrow> Fin 0
        | c # cs \<Rightarrow> (case read_digits 0 (c # cs) of Some n \<Rightarrow> Fin (of_nat n) | None \<Rightarrow> NaN))\<rparr>"

text \<open>The tender of the source's \<^verbatim>\<open>DevTests\<close>.\<close>

definition baseTender :: Tender where
  "baseTender =
     \<lparr>tender_id = JStr ''x'', title = JStr ''Demo'', buyer = JStr ''Buyer'',
      region = JStr ''DE-SN'', deadline = JStr ''2025-12-31'', url = [], score = Fin 80,
      legalRisks = [], legalRisksWithSource = [], mustHits = 8, mustTotal = 10,
      canHits = 5, canTotal = 10, serviceTypes = [''Unterhaltsreinigung''],
      scopeOfWork = JUndefined,
      scopeOfWorkSource = \<lparr>sc_text = JUndefined, sc_source_document = JUndefined,
                            sc_source_chunk_id = JUndefined\<rparr>,
      submission = [], submissionWithSource = [], certifications = [],
      evaluationCriteria = [], evaluationCriteriaWithSource = [], safety = [],
      penalties = [], processSteps = [], projectDuration = JUndefined,
      economicAnalysis = JUndefined, missingEvidence = [], missingEvidenceWithSource = [],
      sources = \<lparr>src_title = JUndefined, src_buyer = JUndefined, src_mustCriteria = JUndefined,
                  src_logistics = JUndefined, src_deadline = JUndefined,
                  src_certifications = JUndefined, src_scopeOfWork = JUndefined,
                  src_pricingModel = JUndefined, src_penalties = JUndefined,
                  src_evaluationCriteria = JUndefined, src_submission = JUndefined,
                  src_legalRisks = JUndefined\<rparr>\<rparr>"

text \<open>The number of required questions without a non-empty trimmed answer.\<close>

definition qMissing :: "(string \<rightharpoonup> string) \<Rightarrow> nat" where
  "qMissing answers = length (filter (unanswered answers) REQUIRED_Q)"

text \<open>The order of the numbers, which holds of no pair with a \<open>NaN\<close>.\<close>

fun jle :: "jsnum \<Rightarrow> jsnum \<Rightarrow> bool" where
  "jle (Fin x) (Fin y) = (x \<le> y)"
| "jle NaN b = False"
| "jle a NaN = False"
| "jle NegInf b = True"
| "jle a PosInf = True"
| "jle a b = False"

text \<open>
  The result of \<^verbatim>\<open>computeWinProbability\<close> at \<^verbatim>\<open>mustPct = 80\<close>, where \<^verbatim>\<open>mustBoost\<close> is 16, as a
  function of \<^verbatim>\<open>base\<close>.
\<close>

definition win_of_base :: "jsnum \<Rightarrow> jsnum" where
  "win_of_base b =
     Math_max (Fin 1) (Math_min (Fin 99)
       (Math_round (dadd (dmul (dadd b (Fin 16)) (fl (9 / 10))) (Fin 5))))"

text \<open>The cities among the words of the depot pattern.\<close>

definition depot_cities :: "string list" where
  "depot_cities = [''Hamburg'', ''Bremen'', ''Hannover'', ''Berlin'',
     ''M'' @ [CHR 0xFC] @ ''nchen'', ''K'' @ [CHR 0xF6] @ ''ln'', ''Stuttgart'']"

text \<open>A case-insensitive substring test against a list of words.\<close>

definition mentions :: "string list \<Rightarrow> string \<Rightarrow> bool" where
  "mentions words s = (\<exists>w \<in> set words. str_includes (toLowerCase s) (toLowerCase w))"

text \<open>
  The formula of the route score for a given decision on the bonus, every operation being
  the one of the doubles.
\<close>

definition route_formula :: "jsnum \<Rightarrow> jsnum \<Rightarrow> bool \<Rightarrow> jsnum" where
  "route_formula distanceKm projectDays bonus =
     Math_max (Fin 0) (Math_min (Fin 100) (Math_round
       (dadd (dadd (dsub (Fin 100)
                      (dmul (Math_max (Fin 0) (dsub distanceKm (Fin 50))) (fl (2 / 5))))
                (Math_min (Fin 10) (dmul (ddiv projectDays (Fin 30)) (Fin 2))))
          (if bonus then Fin 8 else Fin 0))))"

text \<open>The same formula in the arithmetic of the rationals, without any rounding but the last.\<close>

definition route_raw :: "rat \<Rightarrow> rat \<Rightarrow> bool \<Rightarrow> rat" where
  "route_raw distanceKm projectDays bonus =
     100 - max 0 (distanceKm - 50) * (2 / 5) + min 10 (projectDays / 30 * 2)
       + (if bonus then 8 else 0)"

definition route_exact :: "rat \<Rightarrow> rat \<Rightarrow> bool \<Rightarrow> int" where
  "route_exact distanceKm projectDays bonus =
     max 0 (min 100 (floor (route_raw distanceKm projectDays bonus + 1 / 2)))"

text \<open>An optional label as the \<^verbatim>\<open>a?: string\<close> of \<^verbatim>\<open>mergeSourceDocuments\<close> receives it.\<close>

definition opt_label :: "string option \<Rightarrow> jsval" where
  "opt_label a = (case a of None \<Rightarrow> JUndefined | Some s \<Rightarrow> JStr s)"

text \<open>
  The labels that are present, trimmed, the empty ones dropped, each kept at its first
  occurrence, joined by a semicolon and a space.
\<close>

definition merged_labels :: "string option \<Rightarrow> string option \<Rightarrow> string" where
  "merged_labels a b =
     join ''; '' (rev (remdups (rev (filter (\<lambda>s. s \<noteq> [])
       (map trim (List.map_filter (\<lambda>x. x) [a, b]))))))"

text \<open>What the claim on \<^verbatim>\<open>pickTopCriteria\<close> calls a zero or a missing weight.\<close>

definition weight_zero_or_missing :: "jsval \<Rightarrow> bool" where
  "weight_zero_or_missing crit =
     (get crit ''weight_percent'' = JNum (Fin 0) \<or> get crit ''weight_percent'' = JUndefined
      \<or> get crit ''weight_percent'' = JNull)"

definition crit_example :: "jsval list" where
  "crit_example =
     [JObj [(''criterion_de'', JStr ''Preis''), (''weight_percent'', JNum (Fin 60))],
      JObj [(''criterion_de'', JStr ''Konzept''), (''weight_percent'', JNum (Fin 0))],
      JObj [(''criterion_de'', JStr ''Termintreue'')]]"

text \<open>The text and the detail that \<^verbatim>\<open>pickTopRequirements\<close> reads from a requirement.\<close>

definition requirement_text :: "jsval \<Rightarrow> jsval" where
  "requirement_text req = js_or (get req ''requirement_de'') (js_or (get req ''text'') (JStr []))"

definition requirement_detail :: "jsval \<Rightarrow> jsval" where
  "requirement_detail req =
     js_or (get req ''explanation_de'')
       (js_or (get req ''explanation'') (js_or (get req ''description_de'') (JStr [])))"

definition req_example :: "jsval list" where
  "req_example = [JObj [(''requirement_de'', JStr ''Handelsregisterauszug''),
                        (''explanation_de'', JStr ''unbekannt'')]]"

text \<open>
  The timeline as the specification words it. A bucket matches a step when one of its
  keywords occurs in the title and the description, put together with a space between them
  and read without regard to case (letters with diacritics are kept as they are); a step is
  assigned to the first bucket, in the order of declaration, that matches it; a bucket's
  slot holds the first step, in input order, assigned to it, and the submission slot, when
  no step is assigned to it, takes the synthesized step; the slots that hold a step are
  numbered from 1.
\<close>

definition matches_bucket :: "bucket \<Rightarrow> step_entry \<Rightarrow> bool" where
  "matches_bucket b s =
     (\<exists>keyword \<in> set (keywords_of b).
        sublist keyword (map to_lower_char (st_title_de s @ '' '' @ st_description_de s)))"

definition assigned_bucket :: "step_entry \<Rightarrow> bucket option" where
  "assigned_bucket s = find (\<lambda>b. matches_bucket b s) buckets"

definition first_assigned :: "step_entry list \<Rightarrow> bucket \<Rightarrow> step_entry option" where
  "first_assigned valid b = find (\<lambda>s. assigned_bucket s = Some b) valid"

definition submission_empty :: "step_entry list \<Rightarrow> bool" where
  "submission_empty valid =
     (\<not> list_ex (\<lambda>s. map_option key (assigned_bucket s) = Some ''submission'') valid)"

definition timeline_slots :: "step_entry list \<Rightarrow> step_entry option \<Rightarrow> step_entry option list" where
  "timeline_slots valid synthesized =
     map (\<lambda>b. case first_assigned valid b of
                 Some s \<Rightarrow> Some s
               | None \<Rightarrow> (if key b = ''submission'' then synthesized else None)) buckets"

definition numbered :: "step_entry option list \<Rightarrow> process_step list" where
  "numbered slots =
     (let filled = List.map_filter (\<lambda>x. x) slots
      in map (\<lambda>i. \<lparr>step = i + 1, title_de = st_title_de (filled ! i),
                    description_de = st_description_de (filled ! i),
                    days_de = st_days_de (filled ! i),
                    ps_source_document = st_source_document (filled ! i),
                    ps_source_chunk_id = st_source_chunk_id (filled ! i)\<rparr>)
           [0 ..< length filled])"

text \<open>
  Eight steps. The first is for the fifth bucket. The second needs the trimming and the
  lower case, and the third is a later step for the same bucket. The fourth has its keyword
  in the description only, in upper case with an umlaut. The fifth matches the second and
  the sixth bucket, the sixth matches none, the seventh has a placeholder for a title and the
  eighth is for the sixth bucket. None is for the submission.
\<close>

definition timeline_example :: "jsval list" where
  "timeline_example =
     [JObj [(''title_de'', JStr ''Zuschlag''),
            (''description_de'', JStr ''Entscheidung der Vergabestelle'')],
      JObj [(''title_de'', JStr ''  PLANUNG  der Baustelle ''), (''days_de'', JStr '' 14 '')],
      JObj [(''title_de'', JStr ''Vorbereitung der Unterlagen'')],
      JObj [(''title_de'', JStr ''Termin''),
            (''description_de'', JStr (''Interne PR'' @ [CHR 0xDC] @ ''FUNG'')),
            (''source_chunk_id'', JStr ''c7'')],
      JObj [(''title_de'', JStr ''Beginn der Genehmigung'')],
      JObj [(''title_de'', JStr ''Sonstiges'')],
      JObj [(''title_de'', JStr ''unbekannt''), (''description_de'', JStr ''Leistungsbeginn'')],
      JObj [(''title_de'', JStr ''Start''), (''source_document'', JStr ''b.pdf'')]]"

definition timeline_example_deadline :: jsval where
  "timeline_example_deadline =
     JObj [(''submission_deadline_de'', JStr ''2025-12-15''), (''source_document'', JStr ''t.pdf'')]"

text \<open>
  One step for the submission, and a deadline that is an object with a \<^verbatim>\<open>toString\<close> entry,
  which no template literal can print.
\<close>

definition timeline_example_filled :: "jsval list" where
  "timeline_example_filled = [JObj [(''title_de'', JStr ''Angebot einreichen'')]]"

definition timeline_example_object :: jsval where
  "timeline_example_object = JObj [(''submission_deadline_de'', JObj [(''toString'', JNull)])]"

text \<open>
  Bundles in which every field is the string \<^verbatim>\<open>unbekannt\<close>: a section is that string, a
  record whose fields all are that string, or a list of such strings and records.
\<close>

definition unb :: jsval where
  "unb = JStr ''unbekannt''"

definition unb_fields :: "jsval \<Rightarrow> bool" where
  "unb_fields v = (case v of JObj kvs \<Rightarrow> list_all (\<lambda>p. snd p = unb) kvs | _ \<Rightarrow> False)"

definition unb_item :: "jsval \<Rightarrow> bool" where
  "unb_item v = (v = unb \<or> unb_fields v)"

definition unb_section :: "jsval \<Rightarrow> bool" where
  "unb_section v =
     (unb_item v \<or> (case v of JArr xs \<Rightarrow> list_all unb_item xs | _ \<Rightarrow> False))"

definition unb_bundle :: "jsval \<Rightarrow> bool" where
  "unb_bundle v = (case v of JObj secs \<Rightarrow> list_all (\<lambda>p. unb_section (snd p)) secs | _ \<Rightarrow> False)"

definition unb_or_absent :: "jsval \<Rightarrow> bool" where
  "unb_or_absent v = (v = unb \<or> v = JUndefined)"

text \<open>The field \<open>k\<close> of the section \<open>section_name\<close> of a bundle.\<close>

definition field_of :: "jsval \<Rightarrow> string \<Rightarrow> string \<Rightarrow> jsval" where
  "field_of ui section_name k = get (get ui section_name) k"

definition payload_of :: "jsval \<Rightarrow> BatchSummaryPayload" where
  "payload_of ui =
     \<lparr>batchId = ''b1'',
      summary = \<lparr>run_id = ''r1'', ui_json = ui, total_files = 1, success_files = 1,
                  failed_files = 0, status = ''completed''\<rparr>\<rparr>"

definition nested_placeholder_bundle :: jsval where
  "nested_placeholder_bundle =
     JObj [(''meta'', JObj [(''tender_id'', unb), (''tender_title'', unb),
                            (''organization'', unb), (''source_document'', unb)]),
           (''executive_summary'', JObj [(''title_de'', unb), (''organization_de'', unb),
                            (''location_de'', unb), (''brief_description_de'', unb),
                            (''source_document'', unb)]),
           (''timeline_milestones'', JObj [(''submission_deadline_de'', unb),
                            (''project_duration_de'', unb), (''source_document'', unb)]),
           (''mandatory_requirements'', JArr [JObj [(''requirement_de'', unb),
                            (''explanation_de'', unb), (''source_document'', unb)]]),
           (''risks'', JArr [JObj [(''risk_de'', unb), (''severity'', unb),
                            (''source_document'', unb)]]),
           (''service_types'', JArr [unb]),
           (''evaluation_criteria'', JArr [JObj [(''criterion_de'', unb),
                            (''weight_percent'', unb), (''source_document'', unb)]]),
           (''safety_requirements'', JArr [unb]),
           (''contract_penalties'', JArr [unb]),
           (''certifications_required'', JArr [unb]),
           (''process_steps'', JArr [JObj [(''title_de'', unb), (''description_de'', unb),
                            (''days_de'', unb), (''source_document'', unb)]]),
           (''missing_evidence_documents'', JArr [JObj [(''document_de'', unb),
                            (''source_document'', unb)]]),
           (''economic_analysis'', unb)]"

definition flat_placeholder_bundle :: jsval where
  "flat_placeholder_bundle =
     JObj [(''meta'', unb), (''executive_summary'', unb), (''timeline_milestones'', unb),
           (''mandatory_requirements'', unb), (''risks'', unb), (''service_types'', unb),
           (''evaluation_criteria'', unb), (''safety_requirements'', unb),
           (''contract_penalties'', unb), (''certifications_required'', unb),
           (''process_steps'', unb), (''missing_evidence_documents'', unb),
           (''economic_analysis'', unb)]"


text \<open>
  The order of the claim on \<^verbatim>\<open>pickTopRisks\<close>: the tier of a severity (an unknown one counts
  as low), higher tiers first, and the input index within a tier.
\<close>

definition tier :: "string \<Rightarrow> int" where
  "tier s = (if s = ''high'' then 3 else if s = ''medium'' then 2 else 1)"

definition risk_key :: "risk_entry \<Rightarrow> int \<times> nat" where
  "risk_key e = (- tier (rk_severity e), rk_index e)"

definition inherited_name :: "string \<Rightarrow> bool" where
  "inherited_name s = (s = ''constructor'' \<or> s = ''__proto__'')"

section \<open>Strings: basic facts\<close>

lemma trim_Nil: "trim [] = []"
  by (simp add: trim_def)

lemma floor_rat_numeral_div [simp]:
  "floor (numeral a / numeral b :: rat) = numeral a div numeral b"
  by (metis floor_divide_of_int_eq of_int_numeral)

lemma starts_with_prefix: "starts_with s k \<longleftrightarrow> prefix k s"
  by (induction s k rule: starts_with.induct) auto

lemma str_includes_sublist: "str_includes s k \<longleftrightarrow> sublist k s"
  by (induction s) (auto simp: starts_with_prefix sublist_Cons_right)

lemma match_here_prefix: "match_here w s \<longleftrightarrow> prefix (toLowerCase w) (toLowerCase s)"
  by (induction w s rule: match_here.induct) (auto simp: toLowerCase_def)

lemma regex_test_sublist:
  "regex_test ws s \<longleftrightarrow> (\<exists>w \<in> set ws. sublist (toLowerCase w) (toLowerCase s))"
proof (induction s)
  case Nil
  show ?case by (auto simp: match_here_prefix toLowerCase_def)
next
  case (Cons c cs)
  show ?case
    by (auto simp: Cons match_here_prefix toLowerCase_def sublist_Cons_right)
qed

lemma regex_test_mentions: "regex_test ws s \<longleftrightarrow> mentions ws s"
  by (simp add: regex_test_sublist mentions_def str_includes_sublist)

section \<open>The error monad, sorting and enumeration: basic facts\<close>

lemma ebind_Inr_iff: "ebind m f = Inr y \<longleftrightarrow> (\<exists>x. m = Inr x \<and> f x = Inr y)"
  by (cases m) (simp_all add: ebind_def)

lemma ebind_Inr [simp]: "ebind (Inr x) f = f x"
  by (simp add: ebind_def)

lemma ebind_Inl [simp]: "ebind (Inl e) f = Inl e"
  by (simp add: ebind_def)

lemma esequence_map_Inr: "esequence (map Inr ys) = Inr ys"
  by (induction ys) simp_all

lemma esequence_Inr_D: "esequence ms = Inr ys \<Longrightarrow> ms = map Inr ys"
  by (induction ms arbitrary: ys) (auto simp: ebind_Inr_iff)

lemma emap_Inr_iff: "emap f xs = Inr ys \<longleftrightarrow> map f xs = map Inr ys"
  using esequence_Inr_D esequence_map_Inr by (auto simp: emap_def)

lemma emap_Inr_set:
  assumes "emap f xs = Inr ys" and "y \<in> set ys"
  shows "\<exists>x \<in> set xs. f x = Inr y"
proof -
  from assms(1) have "map f xs = map Inr ys" by (simp add: emap_Inr_iff)
  then have "Inr y \<in> set (map f xs)" using assms(2) by simp
  then show ?thesis by auto
qed

lemma emap_all_Inr:
  assumes "\<And>x. x \<in> set xs \<Longrightarrow> f x = Inr (g x)"
  shows "emap f xs = Inr (map g xs)"
  using assms by (simp add: emap_Inr_iff)

lemma efold_unchanged:
  assumes "\<And>x. x \<in> set xs \<Longrightarrow> f s x = Inr s"
  shows "efold f s xs = Inr s"
  using assms by (induction xs) simp_all

lemma efold_filter_skip:
  assumes "efold f s xs = Inr s'"
      and "\<And>x t t'. P x \<Longrightarrow> f t x = Inr t' \<Longrightarrow> t' = t"
  shows "efold f s (filter (\<lambda>x. \<not> P x) xs) = Inr s'"
  using assms(1)
proof (induction xs arbitrary: s)
  case Nil
  then show ?case by simp
next
  case (Cons x xs)
  from Cons.prems obtain t where t: "f s x = Inr t" and rest: "efold f t xs = Inr s'"
    by (auto simp: ebind_Inr_iff)
  show ?case
  proof (cases "P x")
    case True
    with t assms(2) have "t = s" by blast
    with rest True Cons.IH show ?thesis by simp
  next
    case False
    with t rest Cons.IH show ?thesis by simp
  qed
qed

lemma set_sort_insert: "set (sort_insert cmp x ys) = insert x (set ys)"
  by (induction ys) auto

lemma set_js_sort: "set (js_sort cmp xs) = set xs"
  unfolding js_sort_def by (induction xs) (simp_all add: set_sort_insert)

lemma length_sort_insert: "length (sort_insert cmp x ys) = Suc (length ys)"
  by (induction ys) auto

lemma length_js_sort: "length (js_sort cmp xs) = length xs"
  unfolding js_sort_def by (induction xs) (simp_all add: length_sort_insert)

lemma in_set_enumerate_snd: "ix \<in> set (enumerate n xs) \<Longrightarrow> snd ix \<in> set xs"
  by (cases ix) (auto simp: in_set_enumerate_eq)

lemma efold_invariant:
  assumes "efold f s xs = Inr s'" and "P s"
      and "\<And>t x t'. P t \<Longrightarrow> f t x = Inr t' \<Longrightarrow> P t'"
  shows "P s'"
  using assms(1,2)
proof (induction xs arbitrary: s)
  case Nil
  then show ?case by simp
next
  case (Cons x xs)
  from Cons.prems(1) obtain t where t: "f s x = Inr t" and rest: "efold f t xs = Inr s'"
    by (auto simp: ebind_Inr_iff)
  from assms(3)[OF Cons.prems(2) t] have "P t" .
  from Cons.IH[OF rest this] show ?case .
qed

lemma set_map_set: "set (map_set m k v) \<subseteq> insert (k, v) (set m)"
  by (induction m) (auto split: if_splits)

lemma sort_insert_insort_key:
  assumes "\<And>y. y \<in> set ys \<Longrightarrow> num_pos (cmp x y) \<longleftrightarrow> \<not> k x \<le> k y"
  shows "sort_insert cmp x ys = insort_key k x ys"
  using assms by (induction ys) auto

lemma js_sort_sort_key:
  assumes "\<And>x y. x \<in> set xs \<Longrightarrow> y \<in> set xs \<Longrightarrow> num_pos (cmp x y) \<longleftrightarrow> \<not> k x \<le> k y"
  shows "js_sort cmp xs = sort_key k xs"
  using assms
proof (induction xs)
  case Nil
  show ?case by (simp add: js_sort_def)
next
  case (Cons x xs)
  have ih: "js_sort cmp xs = sort_key k xs" by (rule Cons.IH) (use Cons.prems in auto)
  have "js_sort cmp (x # xs) = sort_insert cmp x (js_sort cmp xs)" by (simp add: js_sort_def)
  also have "\<dots> = insort_key k x (js_sort cmp xs)"
    by (rule sort_insert_insort_key) (use Cons.prems in \<open>auto simp: set_js_sort\<close>)
  finally show ?case by (simp add: ih sort_key_def)
qed

section \<open>Rounding to a double: basic facts\<close>

text \<open>
  The rounding is monotone, it is exact on the integers below \<open>2^53\<close>, and below \<open>2^k\<close> it
  moves a number by no more than \<open>2^(k-53)\<close>.
\<close>

lemma rne_ge_floor: "floor y \<le> rne y"
  by (simp add: rne_def Let_def)

lemma rne_le_floor1: "rne y \<le> floor y + 1"
  by (simp add: rne_def Let_def)

lemma rne_of_int [simp]: "rne (of_int k) = k"
  by (simp add: rne_def Let_def)

lemma rne_ge: "of_int k \<le> y \<Longrightarrow> k \<le> rne y"
  using rne_ge_floor [of y] by (meson le_floor_iff order_trans)

lemma rne_le: 
  assumes "y \<le> of_int k" shows "rne y \<le> k"
proof (cases "y = of_int k")
  case True then show ?thesis by simp
next
  case False
  with assms have "y < of_int k" by simp
  then have "floor y < k" by (simp add: floor_less_iff)
  with rne_le_floor1 [of y] show ?thesis by linarith
qed

lemma rne_mono:
  assumes "y \<le> z" shows "rne y \<le> rne z"
proof (cases "floor y < floor z")
  case True
  with rne_le_floor1 [of y] rne_ge_floor [of z] show ?thesis by linarith
next
  case False
  with assms have "floor y = floor z" by (simp add: floor_mono order_antisym)
  with assms show ?thesis by (auto simp: rne_def Let_def)
qed

lemma rne_error: "\<bar>of_int (rne y) - y\<bar> \<le> 1 / 2"
proof -
  have "of_int (floor y) \<le> y" "y < of_int (floor y) + 1" by linarith+
  then show ?thesis by (auto simp: rne_def Let_def)
qed

lemma expo_bounds:
  assumes "0 < x"
  shows "2 powi (expo x) \<le> x \<and> x < 2 powi (expo x + 1)"
proof (cases "1 \<le> x")
  case True
  define f where "f = floor x"
  have f: "0 < f" using True by (simp add: f_def)
  from bitlen_bounds [OF f] have b: "2 ^ nat (bitlen f - 1) \<le> f" "f < 2 ^ nat (bitlen f)" by auto
  have "bitlen f \<noteq> 0" using f by (simp add: bitlen_eq_zero_iff)
  with bitlen_nonneg [of f] have bl: "1 \<le> bitlen f" by linarith
  have e: "expo x = bitlen f - 1" using True by (simp add: expo_def f_def)
  have "(2::rat) powi (bitlen f - 1) = of_int (2 ^ nat (bitlen f - 1))"
    using bl by (simp add: power_int_def)
  also have "\<dots> \<le> of_int f" using b(1) by (simp only: of_int_le_iff)
  also have "\<dots> \<le> x" by (simp add: f_def)
  finally have lo: "2 powi (expo x) \<le> x" by (simp add: e)
  have "x < of_int (f + 1)" unfolding f_def by (simp only: of_int_add of_int_1) linarith
  also have "\<dots> \<le> of_int (2 ^ nat (bitlen f))" using b(2) by (simp only: of_int_le_iff)
  also have "\<dots> = (2::rat) powi (bitlen f)" using bl by (simp add: power_int_def)
  finally have "x < 2 powi (expo x + 1)" by (simp add: e)
  with lo show ?thesis by simp
next
  case False
  define y where "y = 1 / x"
  define n where "n = ceiling y"
  define b where "b = bitlen (n - 1)"
  have y1: "1 < y" using False assms by (simp add: y_def)
  have cc: "of_int n - 1 < y" "y \<le> of_int n" using ceiling_correct [of y] by (simp_all add: n_def)
  from y1 cc(2) have "(of_int 1 :: rat) < of_int n" by simp
  then have n2: "2 \<le> n" by (simp only: of_int_less_iff)
  then have n1: "0 < n - 1" by simp
  from bitlen_bounds [OF n1] have bb: "2 ^ nat (b - 1) \<le> n - 1" "n - 1 < 2 ^ nat b"
    by (auto simp: b_def)
  have "b \<noteq> 0" using n1 by (simp add: b_def bitlen_eq_zero_iff)
  with bitlen_nonneg [of "n - 1"] have bl: "1 \<le> b" by (simp add: b_def)
  have e: "expo x = - b" using False by (simp add: expo_def b_def n_def y_def)
  have nle: "n \<le> 2 ^ nat b" using bb(2) by simp
  have "y \<le> of_int n" by (rule cc(2))
  also have "\<dots> \<le> of_int (2 ^ nat b)" using nle by (simp only: of_int_le_iff)
  finally have yle: "y \<le> 2 ^ nat b" by simp
  have "(2::rat) powi (- b) = 1 / 2 ^ nat b" using bl by (simp add: power_int_def field_simps)
  also have "\<dots> \<le> 1 / y" using yle y1 by (simp add: frac_le)
  also have "\<dots> = x" by (simp add: y_def)
  finally have lo: "2 powi (expo x) \<le> x" by (simp add: e)
  have "of_int (n - 1) < y" using cc(1) by simp
  moreover have "of_int (2 ^ nat (b - 1)) \<le> (of_int (n - 1) :: rat)" using bb(1) by (simp only: of_int_le_iff)
  ultimately have ylt: "2 ^ nat (b - 1) < y" by simp
  have "x = 1 / y" by (simp add: y_def)
  also have "\<dots> < 1 / 2 ^ nat (b - 1)" using ylt by (simp add: frac_less2)
  also have "\<dots> = (2::rat) powi (- b + 1)"
  proof (cases "b = 1")
    case True then show ?thesis by simp
  next
    case False
    with bl have "- b + 1 < 0" by simp
    then show ?thesis using bl by (simp add: power_int_def field_simps nat_diff_distrib)
  qed
  finally have "x < 2 powi (expo x + 1)" by (simp add: e)
  with lo show ?thesis by simp
qed

lemma expo_mono:
  assumes "0 < x" "x \<le> y" shows "expo x \<le> expo y"
proof (rule ccontr)
  assume "\<not> expo x \<le> expo y"
  then have "expo y + 1 \<le> expo x" by simp
  then have "(2::rat) powi (expo y + 1) \<le> 2 powi (expo x)" by (simp add: power_int_increasing)
  also have "\<dots> \<le> x" using expo_bounds [OF assms(1)] by simp
  also have "\<dots> \<le> y" by fact
  also have "\<dots> < 2 powi (expo y + 1)" using expo_bounds [of y] assms by simp
  finally show False by simp
qed

lemma powi2_less_D: "(2::rat) powi a < 2 powi b \<Longrightarrow> a < b"
  using power_int_increasing [of b a "2::rat"] by (cases "a < b") auto

lemma expo_unique:
  assumes "0 < x" "2 powi e \<le> x" "x < 2 powi (e + 1)" shows "expo x = e"
proof -
  from expo_bounds [OF assms(1)] have b: "2 powi (expo x) \<le> x" "x < 2 powi (expo x + 1)" by auto
  have "(2::rat) powi e < 2 powi (expo x + 1)" using assms(2) b(2) by simp
  then have 1: "e < expo x + 1" by (rule powi2_less_D)
  have "(2::rat) powi (expo x) < 2 powi (e + 1)" using assms(3) b(1) by simp
  then have 2: "expo x < e + 1" by (rule powi2_less_D)
  from 1 2 show ?thesis by simp
qed


lemma powi2_split: "(2::rat) powi a = 2 powi (a - b) * 2 powi b"
  by (simp flip: power_int_add)

lemma rd_pos_nonneg:
  assumes "0 < x" shows "0 \<le> rd_pos x"
proof -
  define q :: rat where "q = 2 powi (max (expo x) (- 1022) - 52)"
  have q: "0 < q" by (simp add: q_def)
  have "of_int 0 \<le> x / q" using assms q by simp
  then have "0 \<le> rne (x / q)" by (rule rne_ge)
  then show ?thesis using q by (simp add: rd_pos_def Let_def q_def [symmetric])
qed

lemma rd_pos_upper:
  assumes "0 < x" shows "rd_pos x \<le> 2 powi (max (expo x) (- 1022) + 1)"
proof -
  define e where "e = max (expo x) (- 1022)"
  define q :: rat where "q = 2 powi (e - 52)"
  have q: "0 < q" by (simp add: q_def)
  have s: "(2::rat) powi (e + 1) = 2 powi 53 * q"
    using powi2_split [of "e + 1" "e - 52"] by (simp add: q_def)
  have "x < 2 powi (expo x + 1)" using expo_bounds [OF assms] by simp
  also have "\<dots> \<le> 2 powi (e + 1)" by (rule power_int_increasing) (simp_all add: e_def)
  finally have "x < 2 powi (e + 1)" .
  then have "x < 2 powi 53 * q" by (simp only: s)
  then have "x / q \<le> 2 powi 53" using q by (simp add: field_simps)
  then have "x / q \<le> of_int (2 ^ 53)" by simp
  then have "rne (x / q) \<le> 2 ^ 53" by (rule rne_le)
  then have "(of_int (rne (x / q)) :: rat) \<le> of_int (2 ^ 53)" by (simp only: of_int_le_iff)
  then have "of_int (rne (x / q)) * q \<le> 2 powi 53 * q" using q by simp
  moreover have "rd_pos x = of_int (rne (x / q)) * q" by (simp add: rd_pos_def Let_def q_def e_def)
  ultimately show ?thesis by (simp only: s e_def [symmetric])
qed

lemma rd_pos_lower:
  assumes "0 < x" "- 1022 \<le> expo x" shows "2 powi (expo x) \<le> rd_pos x"
proof -
  define e where "e = expo x"
  define q :: rat where "q = 2 powi (e - 52)"
  have q: "0 < q" by (simp add: q_def)
  have m: "max (expo x) (- 1022) = e" using assms(2) by (simp add: e_def)
  have s: "(2::rat) powi e = 2 powi 52 * q"
    using powi2_split [of e "e - 52"] by (simp add: q_def)
  have "2 powi e \<le> x" using expo_bounds [OF assms(1)] by (simp add: e_def)
  then have "2 powi 52 * q \<le> x" by (simp only: s)
  then have "2 powi 52 \<le> x / q" using q by (simp add: field_simps)
  then have "of_int (2 ^ 52) \<le> x / q" by simp
  then have "2 ^ 52 \<le> rne (x / q)" by (rule rne_ge)
  then have "(of_int (2 ^ 52) :: rat) \<le> of_int (rne (x / q))" by (simp only: of_int_le_iff)
  then have "2 powi 52 * q \<le> of_int (rne (x / q)) * q" using q by simp
  moreover have "rd_pos x = of_int (rne (x / q)) * q"
    using assms(2) by (simp add: rd_pos_def Let_def q_def e_def max_def)
  ultimately show ?thesis by (simp only: s e_def [symmetric])
qed

lemma rd_pos_mono:
  assumes "0 < x" "x \<le> y" shows "rd_pos x \<le> rd_pos y"
proof -
  define ex where "ex = max (expo x) (- 1022)"
  define ey where "ey = max (expo y) (- 1022)"
  have y: "0 < y" using assms by simp
  have le: "ex \<le> ey" using expo_mono [OF assms] by (simp add: ex_def ey_def)
  show ?thesis
  proof (cases "ex = ey")
    case True
    define q :: rat where "q = 2 powi (ex - 52)"
    have q: "0 < q" by (simp add: q_def)
    have "x / q \<le> y / q" using assms(2) q by (simp add: divide_right_mono)
    then have "rne (x / q) \<le> rne (y / q)" by (rule rne_mono)
    then have "(of_int (rne (x / q)) :: rat) \<le> of_int (rne (y / q))" by (simp only: of_int_le_iff)
    then have "of_int (rne (x / q)) * q \<le> of_int (rne (y / q)) * q" using q by simp
    then show ?thesis
      by (simp add: rd_pos_def Let_def ex_def [symmetric] ey_def [symmetric] True [symmetric] q_def [symmetric])
  next
    case False
    with le have lt: "ex + 1 \<le> ey" by simp
    then have n: "- 1022 \<le> expo y" "ey = expo y" by (simp_all add: ex_def ey_def)
    have "rd_pos x \<le> 2 powi (ex + 1)" using rd_pos_upper [OF assms(1)] by (simp add: ex_def)
    also have "\<dots> \<le> 2 powi ey" by (rule power_int_increasing) (use lt in simp_all)
    also have "\<dots> \<le> rd_pos y" using rd_pos_lower [OF y n(1)] by (simp add: n(2))
    finally show ?thesis .
  qed
qed

lemma rd_0 [simp]: "rd 0 = 0"
  by (simp add: rd_def)

lemma rd_minus: "rd (- x) = - rd x"
  by (simp add: rd_def)

lemma rd_nonneg: "0 \<le> x \<Longrightarrow> 0 \<le> rd x"
  using rd_pos_nonneg [of x] by (simp add: rd_def)

lemma rd_nonpos: "x \<le> 0 \<Longrightarrow> rd x \<le> 0"
  using rd_nonneg [of "- x"] by (simp add: rd_minus)

lemma rd_mono:
  assumes "x \<le> y" shows "rd x \<le> rd y"
proof -
  consider "0 < x" | "x \<le> 0" "0 \<le> y" | "y < 0" by linarith
  then show ?thesis
  proof cases
    case 1
    then show ?thesis using assms rd_pos_mono [of x y] by (simp add: rd_def)
  next
    case 2
    then show ?thesis using rd_nonpos [of x] rd_nonneg [of y] by simp
  next
    case 3
    then show ?thesis using assms rd_pos_mono [of "- y" "- x"] by (simp add: rd_def)
  qed
qed

lemma rd_pos_error:
  assumes "0 < x" shows "\<bar>rd_pos x - x\<bar> \<le> 2 powi (max (expo x) (- 1022) - 53)"
proof -
  define e where "e = max (expo x) (- 1022)"
  define q :: rat where "q = 2 powi (e - 52)"
  have q: "0 < q" by (simp add: q_def)
  have h: "(2::rat) powi (e - 53) = q / 2"
    using powi2_split [of "e - 52" "e - 53"] by (simp add: q_def)
  have "rd_pos x - x = (of_int (rne (x / q)) - x / q) * q"
    using q by (simp add: rd_pos_def Let_def e_def [symmetric] q_def [symmetric] field_simps)
  then have "\<bar>rd_pos x - x\<bar> = \<bar>of_int (rne (x / q)) - x / q\<bar> * q"
    using q by (simp add: abs_mult)
  also have "\<dots> \<le> (1 / 2) * q" using rne_error [of "x / q"] q by (simp add: mult_right_mono)
  finally show ?thesis by (simp add: h e_def [symmetric])
qed

lemma expo_le:
  assumes "0 < x" "x \<le> 2 powi k" shows "expo x \<le> k"
proof -
  have "2 powi (expo x) \<le> x" using expo_bounds [OF assms(1)] by simp
  with assms(2) have "(2::rat) powi (expo x) \<le> 2 powi k" by simp
  then show ?thesis using power_int_strict_increasing [of k "expo x" "2::rat"]
    by (cases "expo x \<le> k") auto
qed

lemma rd_error:
  assumes "\<bar>x\<bar> \<le> 2 powi k" "- 1022 \<le> k" shows "\<bar>rd x - x\<bar> \<le> 2 powi (k - 53)"
proof -
  have pos: "\<bar>rd_pos z - z\<bar> \<le> 2 powi (k - 53)" if z: "0 < z" "z \<le> 2 powi k" for z
  proof -
    have "max (expo z) (- 1022) \<le> k" using expo_le [OF z] assms(2) by simp
    then have "(2::rat) powi (max (expo z) (- 1022) - 53) \<le> 2 powi (k - 53)"
      by (intro power_int_increasing) simp_all
    with rd_pos_error [OF z(1)] show ?thesis by simp
  qed
  consider "x = 0" | "0 < x" | "x < 0" by linarith
  then show ?thesis
  proof cases
    case 1 then show ?thesis by simp
  next
    case 2 then show ?thesis using pos [of x] assms(1) by (simp add: rd_def)
  next
    case 3
    then have "\<bar>rd_pos (- x) - (- x)\<bar> \<le> 2 powi (k - 53)" using pos [of "- x"] assms(1) by simp
    then show ?thesis using 3 by (simp add: rd_def abs_if split: if_splits)
  qed
qed

lemma rd_pos_of_int:
  assumes "0 < n" "n < 2 ^ 53" shows "rd_pos (of_int n) = of_int n"
proof -
  define x :: rat where "x = of_int n"
  have x: "0 < x" "1 \<le> x" using assms(1) by (simp_all add: x_def)
  have e0: "0 \<le> expo x"
  proof -
    have "(2::rat) powi 0 \<le> x" using x by simp
    also have "\<dots> < 2 powi (expo x + 1)" using expo_bounds [OF x(1)] by simp
    finally have "0 < expo x + 1" by (rule powi2_less_D)
    then show ?thesis by simp
  qed
  have "x < of_int (2 ^ 53)" unfolding x_def using assms(2) by (simp only: of_int_less_iff)
  then have "x < 2 powi 53" by simp
  moreover have "2 powi (expo x) \<le> x" using expo_bounds [OF x(1)] by simp
  ultimately have "(2::rat) powi (expo x) < 2 powi 53" by simp
  then have e53: "expo x < 53" by (rule powi2_less_D)
  define e where "e = expo x"
  define j where "j = nat (52 - e)"
  have m: "max (expo x) (- 1022) = e" using e0 by (simp add: e_def)
  have q: "(2::rat) powi (e - 52) = 1 / 2 ^ j"
    using e53 by (simp add: power_int_def j_def e_def field_simps) 
  have "x / (1 / 2 ^ j) = of_int (n * 2 ^ j)" by (simp add: x_def)
  then have "rne (x / (1 / 2 ^ j)) = n * 2 ^ j" by (simp only: rne_of_int)
  then show ?thesis
    by (simp add: rd_pos_def Let_def m q x_def [symmetric])
qed

lemma rd_of_int:
  assumes "\<bar>n\<bar> < 2 ^ 53" shows "rd (of_int n) = of_int n"
proof -
  consider "n = 0" | "0 < n" | "n < 0" by linarith
  then show ?thesis
  proof cases
    case 1 then show ?thesis by simp
  next
    case 2 then show ?thesis using assms rd_pos_of_int [of n] by (simp add: rd_def)
  next
    case 3 then show ?thesis using assms rd_pos_of_int [of "- n"] by (simp add: rd_def)
  qed
qed

lemma MAX_VALUE_large: "2 ^ 53 \<le> MAX_VALUE"
  by (simp add: MAX_VALUE_def)

lemma fl_not_NaN [simp]: "fl x \<noteq> NaN"
  by (simp add: fl_def Let_def)

lemma fl_mono: "x \<le> y \<Longrightarrow> jle (fl x) (fl y)"
  using rd_mono [of x y] MAX_VALUE_large by (auto simp: fl_def Let_def)

lemma fl_Fin:
  assumes "\<bar>x\<bar> \<le> of_int N" "N < 2 ^ 53" shows "fl x = Fin (rd x)"
proof -
  have N: "\<bar>N\<bar> < 2 ^ 53" "\<bar>- N\<bar> < 2 ^ 53" using assms by linarith+
  have "rd x \<le> rd (of_int N)" "rd (of_int (- N)) \<le> rd x"
    using assms(1) by (auto intro!: rd_mono)
  then have b: "rd x \<le> of_int N" "of_int (- N) \<le> rd x"
    by (simp_all only: rd_of_int [OF N(1)] rd_of_int [OF N(2)])
  have "(of_int N :: rat) < of_int (2 ^ 53)" using assms(2) by (simp only: of_int_less_iff)
  then have "(of_int N :: rat) < MAX_VALUE" using MAX_VALUE_large by simp
  with b show ?thesis by (simp add: fl_def Let_def)
qed

lemma fl_of_int: "\<bar>n\<bar> < 2 ^ 53 \<Longrightarrow> fl (of_int n) = Fin (of_int n)"
  using fl_Fin [of "of_int n" "\<bar>n\<bar>"] by (simp add: rd_of_int)

lemma fl_close:
  assumes "\<bar>x\<bar> \<le> 2 ^ k" "k \<le> 52"
  shows "\<exists>r. fl x = Fin r \<and> \<bar>r - x\<bar> \<le> 1 / 2 ^ (53 - k)"
proof -
  have "(2::int) ^ k < 2 ^ 53" by (rule power_strict_increasing) (use assms(2) in simp_all)
  moreover have "\<bar>x\<bar> \<le> of_int (2 ^ k)" using assms(1) by simp
  ultimately have "fl x = Fin (rd x)" by (rule fl_Fin [rotated])
  moreover have "\<bar>x\<bar> \<le> 2 powi (int k)" using assms(1) by simp
  then have "\<bar>rd x - x\<bar> \<le> 2 powi (int k - 53)" by (rule rd_error) simp
  moreover have "(2::rat) powi (int k - 53) = 1 / 2 ^ (53 - k)"
    using assms(2) by (simp add: power_int_def field_simps nat_diff_distrib)
  ultimately show ?thesis by auto
qed

lemma fl_numeral: "numeral k < (2::int) ^ 53 \<Longrightarrow> fl (numeral k) = Fin (numeral k)"
  using fl_of_int [of "numeral k"] by simp

lemma fl_1: "fl 1 = Fin 1"
  using fl_of_int [of 1] by simp

text \<open>The rounding of a positive number whose binary exponent is known.\<close>

lemma fl_eval:
  assumes "0 < x" "2 powi e \<le> x" "x < 2 powi (e + 1)" "- 1022 \<le> e" "e \<le> 52"
  shows "fl x = Fin (of_int (rne (x / 2 powi (e - 52))) * 2 powi (e - 52))"
proof -
  have e: "expo x = e" using assms(1-3) by (rule expo_unique)
  have r: "rd x = of_int (rne (x / 2 powi (e - 52))) * 2 powi (e - 52)"
    using assms(1,4) by (simp add: rd_def rd_pos_def e Let_def max_def)
  have "rd x \<le> 2 powi (e + 1)"
    using rd_pos_upper [OF assms(1)] assms(1,4) by (simp add: rd_def e max_def)
  also have "\<dots> \<le> 2 powi 53" by (rule power_int_increasing) (use assms(5) in simp_all)
  also have "\<dots> \<le> MAX_VALUE" using MAX_VALUE_large by simp
  finally have "rd x \<le> MAX_VALUE" .
  moreover have "0 \<le> rd x" using assms(1) by (simp add: rd_nonneg)
  moreover have "0 < MAX_VALUE" using MAX_VALUE_large by simp
  ultimately show ?thesis by (simp add: fl_def Let_def r)
qed

lemmas fl_evals =
  fl_eval [where e = "- 3"] fl_eval [where e = "- 2"] fl_eval [where e = "- 1"]
  fl_eval [where e = 0] fl_eval [where e = 1] fl_eval [where e = 2] fl_eval [where e = 3]
  fl_eval [where e = 4] fl_eval [where e = 5] fl_eval [where e = 6]

lemma fl_0 [simp]: "fl 0 = Fin 0"
  using fl_of_int [of 0] by simp

text \<open>The three literals of the scorers that are not integers.\<close>

lemma fl_literals:
  "fl (1 / 5) = Fin (3602879701896397 / 18014398509481984)"
  "fl (2 / 5) = Fin (3602879701896397 / 9007199254740992)"
  "fl (9 / 10) = Fin (8106479329266893 / 9007199254740992)"
  by (simp_all add: fl_evals rne_def Let_def)

section \<open>The operations of the doubles: basic facts\<close>

lemma dadd_NaN [simp]: "dadd a NaN = NaN"
  by (cases a) simp_all

lemma dmul_NaN [simp]: "dmul a NaN = NaN"
  by (cases a) simp_all

lemma ddiv_NaN [simp]: "ddiv a NaN = NaN"
  by (cases a) simp_all

lemma Math_max_NaN [simp]: "Math_max a NaN = NaN"
  by (cases a) simp_all

lemma Math_min_NaN [simp]: "Math_min a NaN = NaN"
  by (cases a) simp_all

lemma jle_refl_iff: "jle a a \<longleftrightarrow> a \<noteq> NaN"
  by (cases a) simp_all

lemma jle_trans: "jle a b \<Longrightarrow> jle b c \<Longrightarrow> jle a c"
  by (cases a; cases b; cases c) simp_all

lemma jle_fl_PosInf [simp]: "jle (fl x) PosInf"
  by (simp add: fl_def Let_def)

lemma jle_NegInf_fl [simp]: "jle NegInf (fl x)"
  by (simp add: fl_def Let_def)

lemma dadd_mono: "jle a b \<Longrightarrow> jle (dadd a (Fin c)) (dadd b (Fin c))"
  by (cases a; cases b) (simp_all add: fl_mono)

lemma dsub_mono: "jle a b \<Longrightarrow> jle (dsub a (Fin c)) (dsub b (Fin c))"
  unfolding dsub_def by (simp add: dadd_mono)


lemma dmul_mono: "0 < c \<Longrightarrow> jle a b \<Longrightarrow> jle (dmul a (Fin c)) (dmul b (Fin c))"
  by (cases a; cases b) (simp_all add: fl_mono signed_inf_def)




lemma Math_max_lower: "a \<noteq> NaN \<Longrightarrow> jle (Fin c) (Math_max (Fin c) a)"
  by (cases a) simp_all


lemma clamp_int:
  assumes "v \<noteq> NaN" "lo \<le> hi"
  shows "\<exists>k. Math_max (Fin (of_int lo)) (Math_min (Fin (of_int hi)) (Math_round v)) = Fin (of_int k)
           \<and> lo \<le> k \<and> k \<le> hi"
proof (cases v)
  case (Fin x)
  have "Math_max (Fin (of_int lo)) (Math_min (Fin (of_int hi)) (Math_round v))
          = Fin (of_int (max lo (min hi (floor (x + 1 / 2)))))"
    by (simp add: Fin of_int_max of_int_min)
  then show ?thesis using assms(2) by (intro exI [of _ "max lo (min hi (floor (x + 1 / 2)))"]) simp
next
  case PosInf
  then show ?thesis using assms(2) by (intro exI [of _ hi]) (simp add: max_def)
next
  case NegInf
  then show ?thesis using assms(2) by (intro exI [of _ lo]) simp
qed (use assms in simp)

lemma dsub_int:
  assumes "\<bar>a - b\<bar> < 2 ^ 53"
  shows "dsub (Fin (of_int a)) (Fin (of_int b)) = Fin (of_int (a - b))"
  using fl_of_int [OF assms] by (simp add: dsub_def)

lemma dmul_int:
  assumes "\<bar>a * b\<bar> < 2 ^ 53"
  shows "dmul (Fin (of_int a)) (Fin (of_int b)) = Fin (of_int (a * b))"
  using fl_of_int [OF assms] by simp

section \<open>mergeSourceDocuments\<close>

text \<open>
  Claim C9. For optional string labels \<open>a\<close> and \<open>b\<close>, \<^verbatim>\<open>mergeSourceDocuments\<close> returns, without
  throwing, the labels that are present, trimmed, without the empty ones and without
  repetition, in their order, joined by \<^verbatim>\<open>"; "\<close>. In particular
  \<^verbatim>\<open>mergeSourceDocuments("A","A")\<close> is \<^verbatim>\<open>"A"\<close>, \<^verbatim>\<open>mergeSourceDocuments("A","B")\<close> is \<^verbatim>\<open>"A; B"\<close> and
  \<^verbatim>\<open>mergeSourceDocuments(undefined,"B")\<close> is \<^verbatim>\<open>"B"\<close>.
\<close>

theorem mergeSourceDocuments_labels:
  "mergeSourceDocuments (opt_label a) (opt_label b) = Inr (merged_labels a b) \<and>
   mergeSourceDocuments (JStr ''A'') (JStr ''A'') = Inr ''A'' \<and>
   mergeSourceDocuments (JStr ''A'') (JStr ''B'') = Inr ''A; B'' \<and>
   mergeSourceDocuments JUndefined (JStr ''B'') = Inr ''B''"
proof -
  have general: "mergeSourceDocuments (opt_label a) (opt_label b) = Inr (merged_labels a b)"
    by (cases a; cases b)
       (auto simp: mergeSourceDocuments_def opt_label_def merged_labels_def emap_def ebind_def
          js_or_def List.map_filter_def trim_Nil)
  have same: "mergeSourceDocuments (JStr ''A'') (JStr ''A'') = Inr ''A''"
    by (simp add: mergeSourceDocuments_def emap_def ebind_def js_or_def trim_def is_ws_def)
  have two: "mergeSourceDocuments (JStr ''A'') (JStr ''B'') = Inr ''A; B''"
    by (simp add: mergeSourceDocuments_def emap_def ebind_def js_or_def trim_def is_ws_def)
  have one: "mergeSourceDocuments JUndefined (JStr ''B'') = Inr ''B''"
    by (simp add: mergeSourceDocuments_def emap_def ebind_def js_or_def trim_def is_ws_def)
  from general same two one show ?thesis by simp
qed

section \<open>computeWinProbability\<close>

lemma qMissing_empty: "qMissing Map.empty = 8"
  by (simp add: qMissing_def REQUIRED_Q_def unanswered_def)

lemma qMissing_le: "qMissing a \<le> 8"
proof -
  have "qMissing a \<le> length REQUIRED_Q" unfolding qMissing_def by (rule length_filter_le)
  then show ?thesis by (simp add: REQUIRED_Q_def)
qed

lemma mustBoost_80: "Math_round (dmul (Fin 80) (fl (1 / 5))) = Fin 16"
  by (simp add: fl_literals fl_evals rne_def Let_def)

text \<open>The penalty of the unanswered questions is computed without rounding.\<close>

lemma qPenalty: "dmul (Fin (of_nat (qMissing a))) (Fin 3) = Fin (of_int (3 * int (qMissing a)))"
  using dmul_int [of "int (qMissing a)" 3] qMissing_le [of a] by (simp add: mult.commute)

lemma cwp_Some:
  "computeWinProbability (Some t) m a (Fin 80) =
     win_of_base (Math_max (Fin 0)
       (dsub (dsub (score t) (dmul m (Fin 4))) (Fin (of_int (3 * int (qMissing a))))))"
  unfolding computeWinProbability_def Let_def win_of_base_def mustBoost_80
    qMissing_def [symmetric] qPenalty
  by simp

lemma docPenalty_5: "dmul (Fin 5) (Fin 4) = Fin 20"
  using dmul_int [of 5 4] by simp

lemma docPenalty_0: "dmul (Fin 0) (Fin 4) = Fin 0"
  by simp


lemma win_of_base_int:
  assumes "b \<noteq> NaN"
  shows "\<exists>k. win_of_base b = Fin (of_int k) \<and> 1 \<le> k \<and> k \<le> 99"
proof -
  define v where "v = dadd (dmul (dadd b (Fin 16)) (Fin (8106479329266893 / 9007199254740992))) (Fin 5)"
  have "jle b b" using assms by (simp add: jle_refl_iff)
  then have "jle v v" unfolding v_def by (intro dadd_mono dmul_mono) simp_all
  then have "v \<noteq> NaN" by (simp add: jle_refl_iff)
  from clamp_int [OF this, of 1 99] show ?thesis
    by (simp add: win_of_base_def fl_literals v_def)
qed

text \<open>The result on a whole base: \<open>\<lfloor>(9 n + 199) / 10\<rfloor>\<close>, capped at 99.\<close>

lemma win_of_base_table:
  "list_all (\<lambda>n. win_of_base (Fin (of_int n)) = Fin (of_int (min 99 ((9 * n + 199) div 10))))
     [0..107]"
  by (simp add: upto.simps win_of_base_def fl_literals fl_evals rne_def Let_def)

lemma win_of_base_whole:
  assumes "0 \<le> n" "n \<le> 107"
  shows "win_of_base (Fin (of_int n)) = Fin (of_int (min 99 ((9 * n + 199) div 10)))"
  using win_of_base_table assms unfolding list_all_iff by simp



lemma base_whole:
  assumes "\<bar>s\<bar> \<le> 1000" "0 \<le> m" "m \<le> 1000" "0 \<le> q" "q \<le> 1000"
  shows "Math_max (Fin 0) (dsub (dsub (Fin (of_int s)) (Fin (of_int m))) (Fin (of_int q)))
           = Fin (of_int (max 0 (s - m - q)))"
proof -
  have "dsub (Fin (of_int s)) (Fin (of_int m)) = Fin (of_int (s - m))"
    by (rule dsub_int) (use assms in simp)
  moreover have "dsub (Fin (of_int (s - m))) (Fin (of_int q)) = Fin (of_int (s - m - q))"
    by (rule dsub_int) (use assms in simp)
  ultimately show ?thesis by (simp add: of_int_max)
qed






text \<open>
  The tender of the source's \<^verbatim>\<open>DevTests\<close>, with no answers: 52 with five missing documents
  and 70 with none.
\<close>

lemma computeWinProbability_baseTender:
  "computeWinProbability (Some baseTender) (Fin 5) Map.empty (Fin 80) = Fin 52 \<and>
   computeWinProbability (Some baseTender) (Fin 0) Map.empty (Fin 80) = Fin 70"
proof -
  have s: "score baseTender = Fin 80" by (simp add: baseTender_def)
  have b: "Math_max (Fin 0) (dsub (dsub (Fin 80) (Fin 20)) (Fin 24)) = Fin 36"
    "Math_max (Fin 0) (dsub (dsub (Fin 80) (Fin 0)) (Fin 24)) = Fin 56"
    using base_whole [of 80 20 24] base_whole [of 80 0 24] by simp_all
  have w: "win_of_base (Fin 36) = Fin 52" "win_of_base (Fin 56) = Fin 70"
    using win_of_base_whole [of 36] win_of_base_whole [of 56] by simp_all
  show ?thesis
    unfolding cwp_Some docPenalty_5 docPenalty_0 qMissing_empty s using b w by simp
qed




text \<open>
  Claim C10. \<^verbatim>\<open>computeWinProbability\<close> reads the answers only through which required question
  has an answer that trims to a non-empty string: two answer maps that agree on that for
  every id of \<^verbatim>\<open>REQUIRED_Q\<close> give the same result, for the same tender, missing count and
  \<^verbatim>\<open>mustPct\<close>.
\<close>

theorem computeWinProbability_answers_only_presence:
  assumes "\<forall>q \<in> set REQUIRED_Q.
             (\<exists>s. a1 q = Some s \<and> trim s \<noteq> []) = (\<exists>s. a2 q = Some s \<and> trim s \<noteq> [])"
  shows "computeWinProbability tender missingCount a1 mustPct
       = computeWinProbability tender missingCount a2 mustPct"
proof -
  have u: "\<And>a q. unanswered a q = (\<not> (\<exists>s. a q = Some s \<and> trim s \<noteq> []))"
    by (simp add: unanswered_def split: option.splits)
  have "filter (unanswered a1) REQUIRED_Q = filter (unanswered a2) REQUIRED_Q"
    by (rule filter_cong[OF refl]) (use assms in \<open>simp add: u\<close>)
  then show ?thesis by (cases tender) (simp_all add: computeWinProbability_def)
qed

theorem computeWinProbability_answers_only_presence_witness:
  "computeWinProbability (Some baseTender) (Fin 2) [''experience'' \<mapsto> ''ok''] (Fin 80)
     = computeWinProbability (Some baseTender) (Fin 2) [''experience'' \<mapsto> '' zehn Jahre''] (Fin 80)"
  using computeWinProbability_answers_only_presence
          [where ?a1.0 = "[''experience'' \<mapsto> ''ok'']"
             and ?a2.0 = "[''experience'' \<mapsto> '' zehn Jahre'']"]
  by (simp add: REQUIRED_Q_def trim_def is_ws_def)

section \<open>routeFeasibilityScore\<close>

lemma regionalDepots_words: "regionalDepots_words = depot_cities @ [''Depot'']"
  by (simp add: regionalDepots_words_def depot_cities_def)

lemma routeFeasibilityScore_route_formula:
  "routeFeasibilityScore d p f = route_formula d p (mentions (depot_cities @ [''Depot'']) f)"
  by (simp add: routeFeasibilityScore_def route_formula_def Let_def regex_test_mentions
      regionalDepots_words fl_numeral fl_1)

lemma route_formula_NaN: "d = NaN \<or> p = NaN \<Longrightarrow> route_formula d p b = NaN"
  by (auto simp: route_formula_def dsub_def)

lemma dsub_left_antimono: "jle a b \<Longrightarrow> jle (dsub (Fin c) b) (dsub (Fin c) a)"
  unfolding dsub_def by (cases a; cases b) (simp_all add: fl_mono)

lemma ddiv_mono: "0 < c \<Longrightarrow> jle a b \<Longrightarrow> jle (ddiv a (Fin c)) (ddiv b (Fin c))"
  by (cases a; cases b) (simp_all add: fl_mono signed_inf_def divide_right_mono)

lemma Math_min_upper: "a \<noteq> NaN \<Longrightarrow> jle (Math_min (Fin c) a) (Fin c)"
  by (cases a) simp_all

lemma dadd_bounded: "jle a (Fin u) \<Longrightarrow> jle b (Fin v) \<Longrightarrow> dadd a b \<noteq> NaN"
  by (cases a; cases b) simp_all

lemma route_formula_whole:
  assumes "d \<noteq> NaN" "p \<noteq> NaN"
  shows "\<exists>k. route_formula d p b = Fin (of_int k) \<and> 0 \<le> k \<and> k \<le> 100"
proof -
  define c4 :: rat where "c4 = 3602879701896397 / 9007199254740992"
  define pen where "pen = dmul (Math_max (Fin 0) (dsub d (Fin 50))) (Fin c4)"
  define bon where "bon = Math_min (Fin 10) (dmul (ddiv p (Fin 30)) (Fin 2))"
  define v where "v = dadd (dadd (dsub (Fin 100) pen) bon) (if b then Fin 8 else Fin 0)"
  have r: "route_formula d p b = Math_max (Fin 0) (Math_min (Fin 100) (Math_round v))"
    by (simp add: route_formula_def v_def pen_def bon_def fl_literals c4_def)
  have "jle d d" using assms(1) by (simp add: jle_refl_iff)
  then have "jle (dsub d (Fin 50)) (dsub d (Fin 50))" by (rule dsub_mono)
  then have "jle (Fin 0) (Math_max (Fin 0) (dsub d (Fin 50)))"
    by (intro Math_max_lower) (simp add: jle_refl_iff)
  then have "jle (dmul (Fin 0) (Fin c4)) pen" unfolding pen_def
    by (rule dmul_mono [rotated]) (simp add: c4_def)
  then have "jle (Fin 0) pen" by simp
  then have "jle (dsub (Fin 100) pen) (dsub (Fin 100) (Fin 0))" by (rule dsub_left_antimono)
  moreover have "dsub (Fin 100) (Fin 0) = Fin 100" using dsub_int [of 100 0] by simp
  ultimately have x: "jle (dsub (Fin 100) pen) (Fin 100)" by simp
  have "jle p p" using assms(2) by (simp add: jle_refl_iff)
  then have "jle (dmul (ddiv p (Fin 30)) (Fin 2)) (dmul (ddiv p (Fin 30)) (Fin 2))"
    by (intro dmul_mono ddiv_mono) simp_all
  then have "jle bon (Fin 10)" unfolding bon_def
    by (intro Math_min_upper) (simp add: jle_refl_iff)
  with x have "dadd (dsub (Fin 100) pen) bon \<noteq> NaN" by (rule dadd_bounded)
  then have "jle (dadd (dsub (Fin 100) pen) bon) (dadd (dsub (Fin 100) pen) bon)"
    by (simp add: jle_refl_iff)
  then have "jle v v" unfolding v_def by (cases b) (simp_all add: dadd_mono)
  then have "v \<noteq> NaN" by (simp add: jle_refl_iff)
  from clamp_int [OF this, of 0 100] show ?thesis by (simp add: r)
qed

text \<open>
  For a distance and a duration of magnitude at most 100000, the value that the doubles
  give to the formula before the last rounding is within \<open>2^-33\<close> of the exact one.
\<close>

lemma route_raw_close:
  assumes d: "\<bar>d\<bar> \<le> 100000" and p: "\<bar>p\<bar> \<le> 100000"
  shows "\<exists>r. route_formula (Fin d) (Fin p) b
               = Fin (of_int (max 0 (min 100 (floor (r + 1 / 2)))))
             \<and> \<bar>r - route_raw d p b\<bar> \<le> 1 / 2 ^ 33"
proof -
  define c4 :: rat where "c4 = 3602879701896397 / 9007199254740992"
  define u :: rat where "u = 1 / 2 ^ 36"
  have u: "0 < u" "u \<le> 1 / 1000" by (simp_all add: u_def)
  have "\<bar>d - 50\<bar> \<le> 2 ^ 17" using d by simp
  from fl_close [OF this] obtain r1 where r1: "fl (d - 50) = Fin r1" "\<bar>r1 - (d - 50)\<bar> \<le> u"
    by (auto simp: u_def)
  define m where "m = max 0 r1"
  define t where "t = m * c4"
  define M where "M = max 0 (d - 50)"
  define P where "P = min 10 (p / 30 * 2)"
  have m: "0 \<le> m" "m \<le> 100051" "\<bar>m - M\<bar> \<le> u"
    using r1(2) d u unfolding m_def M_def by (simp_all add: max_def abs_if split: if_splits)
  have t: "\<bar>t - m * (2 / 5)\<bar> \<le> u" "0 \<le> t" "t \<le> 50000"
    using m(1,2) unfolding t_def c4_def u_def by simp_all
  have "\<bar>t\<bar> \<le> 2 ^ 17" using t(2,3) by simp
  from fl_close [OF this] obtain r2 where r2: "fl t = Fin r2" "\<bar>r2 - t\<bar> \<le> u"
    by (auto simp: u_def)
  have e2: "\<bar>r2 - M * (2 / 5)\<bar> \<le> 3 * u"
    using r2(2) t(1) m(3) u by linarith
  have "\<bar>p / 30\<bar> \<le> 2 ^ 12" using p by simp
  from fl_close [OF this] obtain r3 where r3: "fl (p / 30) = Fin r3" "\<bar>r3 - p / 30\<bar> \<le> u / 32"
    by (auto simp: u_def)
  have r3b: "- 3400 \<le> r3" "r3 \<le> 3400" using r3(2) p u by linarith+
  have "\<bar>r3 * 2\<bar> \<le> 2 ^ 13" using r3b by simp
  from fl_close [OF this] obtain r4 where r4: "fl (r3 * 2) = Fin r4" "\<bar>r4 - r3 * 2\<bar> \<le> u / 16"
    by (auto simp: u_def)
  define bn where "bn = min 10 r4"
  have bn: "\<bar>bn - P\<bar> \<le> u / 8" "bn \<le> 10" "- 8000 \<le> bn"
    using r4(2) r3(2) p u unfolding bn_def P_def by linarith+
  have r2b: "- 1 \<le> r2" "r2 \<le> 50001" using r2(2) t(2,3) u by linarith+
  have "\<bar>100 - r2\<bar> \<le> 2 ^ 17" using r2b by simp
  from fl_close [OF this] obtain r5 where r5: "fl (100 - r2) = Fin r5" "\<bar>r5 - (100 - r2)\<bar> \<le> u"
    by (auto simp: u_def)
  have r5b: "- 50000 \<le> r5" "r5 \<le> 102" using r5(2) r2b u by linarith+
  have "\<bar>r5 + bn\<bar> \<le> 2 ^ 17" using r5b bn(2,3) by simp
  from fl_close [OF this] obtain r6 where r6: "fl (r5 + bn) = Fin r6" "\<bar>r6 - (r5 + bn)\<bar> \<le> u"
    by (auto simp: u_def)
  define e :: rat where "e = (if b then 8 else 0)"
  have e: "0 \<le> e" "e \<le> 8" by (simp_all add: e_def)
  have r6b: "- 60000 \<le> r6" "r6 \<le> 113" using r6(2) r5b bn(2,3) u by linarith+
  have "\<bar>r6 + e\<bar> \<le> 2 ^ 17" using r6b e by simp
  from fl_close [OF this] obtain r7 where r7: "fl (r6 + e) = Fin r7" "\<bar>r7 - (r6 + e)\<bar> \<le> u"
    by (auto simp: u_def)
  have "route_formula (Fin d) (Fin p) b = Fin (of_int (max 0 (min 100 (floor (r7 + 1 / 2)))))"
    using r1(1) r2(1) r3(1) r4(1) r5(1) r6(1) r7(1)
    by (simp add: route_formula_def dsub_def fl_literals c4_def [symmetric] m_def [symmetric]
        t_def [symmetric] bn_def [symmetric] e_def of_int_max of_int_min split: if_splits)
  moreover have "\<bar>r7 - (100 - M * (2 / 5) + P + e)\<bar> \<le> 8 * u"
    using r7(2) r6(2) r5(2) e2 bn(1) u by linarith
  then have "\<bar>r7 - route_raw d p b\<bar> \<le> 8 * u"
    by (simp add: route_raw_def e_def M_def P_def)
  ultimately show ?thesis by (auto simp: u_def)
qed

lemma floor_stable:
  assumes N: "of_int N = 30 * y" and o: "odd N" and z: "\<bar>z - y\<bar> \<le> 1 / 2 ^ 33"
  shows "floor z = floor y"
proof -
  define f where "f = N div 30"
  define g where "g = N mod 30"
  have Ng: "N = 30 * f + g" by (simp add: f_def g_def)
  have g: "0 \<le> g" "g < 30" by (simp_all add: g_def)
  have "odd g" using o unfolding Ng by simp
  then have "g \<noteq> 0" "g \<noteq> 30 - 1 + 1" by auto
  then have g1: "1 \<le> g" using g by simp
  have "odd g" by fact
  then have "g \<noteq> 29 + 1" by auto
  have y: "y = of_int f + of_int g / 30" using N unfolding Ng by simp
  have "(of_int 1 :: rat) \<le> of_int g" "(of_int g :: rat) \<le> of_int 29"
    using g1 g(2) by (simp_all only: of_int_le_iff)
  then have b: "of_int f + 1 / 30 \<le> y" "y \<le> of_int f + 29 / 30" unfolding y by simp_all
  have z': "\<bar>z - y\<bar> \<le> 1 / 100" using z by (rule order_trans) simp
  have "of_int f \<le> y" "y < of_int f + 1" using b by linarith+
  then have "floor y = f" by (rule floor_unique)
  moreover have "of_int f \<le> z" "z < of_int f + 1" using b z' by linarith+
  then have "floor z = f" by (rule floor_unique)
  ultimately show ?thesis by simp
qed

text \<open>
  On whole numbers of kilometres and days the exact formula is never a tie, so the
  doubles give what the rationals give.
\<close>

lemma route_formula_exact:
  assumes "\<bar>km\<bar> \<le> 100000" "\<bar>days\<bar> \<le> 100000"
  shows "route_formula (Fin (of_int km)) (Fin (of_int days)) b
           = Fin (of_int (route_exact (of_int km) (of_int days) b))"
proof -
  define R where "R = route_raw (of_int km) (of_int days) b"
  define N where "N = 3000 - 12 * max 0 (km - 50) + min 300 (2 * days)
                        + (if b then 240 else 0) + 15"
  have "\<bar>of_int km :: rat\<bar> \<le> 100000" "\<bar>of_int days :: rat\<bar> \<le> 100000"
    using assms by linarith+
  from route_raw_close [OF this, of b] obtain r where
    r: "route_formula (Fin (of_int km)) (Fin (of_int days)) b
          = Fin (of_int (max 0 (min 100 (floor (r + 1 / 2)))))"
    and c: "\<bar>r - R\<bar> \<le> 1 / 2 ^ 33" by (auto simp: R_def)
  have N: "of_int N = 30 * (R + 1 / 2)"
    by (simp add: N_def R_def route_raw_def max_def min_def)
  have o: "odd N" by (simp add: N_def max_def min_def)
  have "\<bar>(r + 1 / 2) - (R + 1 / 2)\<bar> \<le> 1 / 2 ^ 33" using c by simp
  with N o have "floor (r + 1 / 2) = floor (R + 1 / 2)" by (rule floor_stable)
  then show ?thesis by (simp add: r route_exact_def R_def)
qed

text \<open>Off the whole numbers the two can differ, by one at most.\<close>

lemma route_formula_near:
  assumes "\<bar>x\<bar> \<le> 100000" "\<bar>y\<bar> \<le> 100000"
  shows "\<exists>k. route_formula (Fin x) (Fin y) b = Fin (of_int k) \<and> \<bar>k - route_exact x y b\<bar> \<le> 1"
proof -
  define R where "R = route_raw x y b"
  from route_raw_close [OF assms, of b] obtain r where
    r: "route_formula (Fin x) (Fin y) b = Fin (of_int (max 0 (min 100 (floor (r + 1 / 2)))))"
    and c: "\<bar>r - R\<bar> \<le> 1 / 2 ^ 33" by (auto simp: R_def)
  have c': "\<bar>r - R\<bar> \<le> 1" using c by (rule order_trans) simp
  have "r + 1 / 2 \<le> (R + 1 / 2) + 1" "R + 1 / 2 \<le> (r + 1 / 2) + 1" using c' by linarith+
  then have "floor (r + 1 / 2) \<le> floor ((R + 1 / 2) + 1)"
    "floor (R + 1 / 2) \<le> floor ((r + 1 / 2) + 1)"
    by (simp_all only: floor_mono)
  then have "floor (r + 1 / 2) \<le> floor (R + 1 / 2) + 1"
    "floor (R + 1 / 2) \<le> floor (r + 1 / 2) + 1"
    using floor_add_int [of "R + 1 / 2" 1] floor_add_int [of "r + 1 / 2" 1] by simp_all
  then have "\<bar>max 0 (min 100 (floor (r + 1 / 2))) - max 0 (min 100 (floor (R + 1 / 2)))\<bar> \<le> 1"
    by linarith
  then show ?thesis using r by (auto simp: route_exact_def R_def)
qed

text \<open>
  A tie that the doubles break downwards: at 132 km and 4.5 days the formula is 67.5 in the
  rationals, and the doubles reach a number just below it.
\<close>

lemma routeFeasibilityScore_tie:
  "routeFeasibilityScore (Fin 132) (Fin (9 / 2)) [] = Fin 67 \<and> route_exact 132 (9 / 2) False = 68"
  by (simp add: routeFeasibilityScore_def regionalDepots_words_def Let_def dsub_def
      route_exact_def route_raw_def fl_literals fl_numeral fl_evals rne_def)

text \<open>
  Claim C5, as stated, fails: the pattern also holds the word \<^verbatim>\<open>Depot\<close>, which is no city. The
  fleet description \<^verbatim>\<open>Depot\<close> names no city of the list and still gets the bonus: at 100 km and
  0 days the score is 88, where the formula without bonus gives 80.
\<close>

theorem routeFeasibilityScore_depot_word:
  "\<not> mentions depot_cities ''Depot'' \<and>
   routeFeasibilityScore (Fin 100) (Fin 0) ''Depot'' = Fin 88 \<and>
   route_formula (Fin 100) (Fin 0) False = Fin 80"
proof -
  have a: "\<not> mentions depot_cities ''Depot''"
    by (simp add: mentions_def depot_cities_def toLowerCase_def to_lower_char_def)
  have b: "mentions (depot_cities @ [''Depot'']) ''Depot''"
    by (simp add: mentions_def depot_cities_def toLowerCase_def to_lower_char_def)
  have c: "route_formula (Fin 100) (Fin 0) e = Fin (of_int (route_exact 100 0 e))" for e
    using route_formula_exact [of 100 0 e] by simp
  have d: "route_exact 100 0 True = 88" "route_exact 100 0 False = 80"
    by (simp_all add: route_exact_def route_raw_def)
  show ?thesis using a by (simp add: routeFeasibilityScore_route_formula b c d)
qed

text \<open>
  Claim C5, amended. \<^verbatim>\<open>routeFeasibilityScore\<close> is
  \<^verbatim>\<open>100 - max(0, distanceKm-50)*0.4 + min(10, projectDays/30*2)\<close> plus a bonus, computed in
  the doubles, rounded and clamped to 0..100; the bonus is exactly 8 when the fleet
  description contains, without regard to case, one of the seven city names or the word
  \<^verbatim>\<open>Depot\<close>, and exactly 0 otherwise. The result is \<open>NaN\<close> when the distance or the duration
  is, and a whole number between 0 and 100 otherwise. For whole numbers of kilometres and
  days of magnitude at most 100000 it is the formula computed in the rationals and rounded
  to the nearest integer, a tie upwards; for other numbers of that magnitude it is at most
  one away from that.
\<close>

theorem routeFeasibilityScore_formula:
  "routeFeasibilityScore d p f = route_formula d p (mentions (depot_cities @ [''Depot'']) f) \<and>
   (d = NaN \<or> p = NaN \<longrightarrow> routeFeasibilityScore d p f = NaN) \<and>
   (d \<noteq> NaN \<and> p \<noteq> NaN \<longrightarrow>
      (\<exists>k. routeFeasibilityScore d p f = Fin (of_int k) \<and> 0 \<le> k \<and> k \<le> 100)) \<and>
   (\<bar>km\<bar> \<le> 100000 \<and> \<bar>days\<bar> \<le> 100000 \<longrightarrow>
      routeFeasibilityScore (Fin (of_int km)) (Fin (of_int days)) f
        = Fin (of_int (route_exact (of_int km) (of_int days)
                         (mentions (depot_cities @ [''Depot'']) f)))) \<and>
   (\<bar>x\<bar> \<le> 100000 \<and> \<bar>y\<bar> \<le> 100000 \<longrightarrow>
      (\<exists>k. routeFeasibilityScore (Fin x) (Fin y) f = Fin (of_int k)
            \<and> \<bar>k - route_exact x y (mentions (depot_cities @ [''Depot'']) f)\<bar> \<le> 1))"
  unfolding routeFeasibilityScore_route_formula
  using route_formula_NaN [of d p] route_formula_whole [of d p]
    route_formula_exact [of km days] route_formula_near [of x y]
  by blast

theorem routeFeasibilityScore_formula_witness:
  "\<bar>120 :: int\<bar> \<le> 100000 \<and> \<bar>45 :: int\<bar> \<le> 100000 \<and>
   routeFeasibilityScore (Fin 120) (Fin 45) ''Lager Bremen'' = Fin 83 \<and>
   routeFeasibilityScore (Fin 120) (Fin 45) ''Lager'' = Fin 75 \<and>
   routeFeasibilityScore NaN (Fin 45) ''Lager'' = NaN"
proof -
  have m: "mentions (depot_cities @ [''Depot'']) ''Lager Bremen''"
    "\<not> mentions (depot_cities @ [''Depot'']) ''Lager''"
    by (simp_all add: mentions_def depot_cities_def toLowerCase_def to_lower_char_def)
  have e: "route_exact 120 45 True = 83" "route_exact 120 45 False = 75"
    by (simp_all add: route_exact_def route_raw_def)
  have "routeFeasibilityScore (Fin 120) (Fin 45) ''Lager Bremen'' = Fin 83"
    using routeFeasibilityScore_formula [of "Fin 120" "Fin 45" "''Lager Bremen''" 120 45 120 45,
        THEN conjunct2, THEN conjunct2, THEN conjunct2, THEN conjunct1]
    by (simp add: m e)
  moreover have "routeFeasibilityScore (Fin 120) (Fin 45) ''Lager'' = Fin 75"
    using routeFeasibilityScore_formula [of "Fin 120" "Fin 45" "''Lager''" 120 45 120 45,
        THEN conjunct2, THEN conjunct2, THEN conjunct2, THEN conjunct1]
    by (simp add: m e)
  moreover have "routeFeasibilityScore NaN (Fin 45) ''Lager'' = NaN"
    using routeFeasibilityScore_formula [of NaN "Fin 45" "''Lager''" 120 45 120 45,
        THEN conjunct2, THEN conjunct1]
    by simp
  ultimately show ?thesis by simp
qed

section \<open>pickTopCriteria\<close>

lemma crit_step_skip:
  assumes "weight_zero_or_missing c" and "crit_step rt m t c = Inr t'"
  shows "t' = t"
proof -
  have w: "to_number rt (nullish (get c ''weight_percent'') (JNum (Fin 0))) = Inr (Fin 0)"
    using assms(1) by (auto simp: weight_zero_or_missing_def nullish_def)
  from assms(2) show ?thesis
    unfolding crit_step_def by (auto simp: ebind_Inr_iff w split: if_splits)
qed

lemma ph_preis: "\<not> is_placeholder ''Preis''"
  by (simp add: is_placeholder_def placeholder_text_def normalizeText_def toLowerCase_def
      to_lower_char_def trim_def is_ws_def PLACEHOLDERS_def)

text \<open>
  Claim C1, as stated, fails: a criterion with the non-placeholder text \<^verbatim>\<open>Preis\<close> and no
  \<^verbatim>\<open>weight_percent\<close> is not kept. Its weight defaults to 0 through \<^verbatim>\<open>?? 0\<close> and the item is
  dropped like an explicit zero.
\<close>

theorem pickTopCriteria_missing_weight_dropped:
  "\<not> is_placeholder ''Preis'' \<and>
   get (JObj [(''criterion_de'', JStr ''Preis'')]) ''weight_percent'' = JUndefined \<and>
   pickTopCriteria integer_runtime [JObj [(''criterion_de'', JStr ''Preis'')]] JUndefined = Inr []"
  by (simp add: ph_preis pickTopCriteria_def crit_step_def js_or_def trim_def is_ws_def nullish_def
      js_sort_def)


text \<open>
  Claim C1, amended. \<^verbatim>\<open>pickTopCriteria\<close> excludes every criterion whose \<^verbatim>\<open>weight_percent\<close> is the
  number 0 and, the same way, every criterion whose \<^verbatim>\<open>weight_percent\<close> is missing or null: for
  every criteria array on which it returns, it returns the same list once all these items
  are removed from the array, so none of them contributes a record, a weight or a source.
\<close>

theorem pickTopCriteria_zero_or_missing_weight:
  assumes "pickTopCriteria rt criteria metaSource = Inr out"
  shows "pickTopCriteria rt (filter (\<lambda>c. \<not> weight_zero_or_missing c) criteria) metaSource = Inr out"
proof -
  from assms obtain seen where s: "efold (crit_step rt metaSource) [] criteria = Inr seen"
    and o: "out = map (crit_out rt) (take 5 (js_sort crit_cmp (map snd seen)))"
    by (auto simp: pickTopCriteria_def ebind_Inr_iff)
  have "efold (crit_step rt metaSource) [] (filter (\<lambda>c. \<not> weight_zero_or_missing c) criteria) = Inr seen"
    by (rule efold_filter_skip[OF s]) (rule crit_step_skip)
  then show ?thesis by (simp add: pickTopCriteria_def o)
qed

theorem pickTopCriteria_zero_or_missing_weight_witness:
  "pickTopCriteria integer_runtime crit_example JUndefined
     = Inr [\<lparr>si_text = ''Preis (60%)'', source_document = JStr [], source_chunk_id = JNull,
              detail = None\<rparr>] \<and>
   pickTopCriteria integer_runtime (filter (\<lambda>c. \<not> weight_zero_or_missing c) crit_example) JUndefined
     = Inr [\<lparr>si_text = ''Preis (60%)'', source_document = JStr [], source_chunk_id = JNull,
              detail = None\<rparr>]"
proof -
  have h: "pickTopCriteria integer_runtime crit_example JUndefined
     = Inr [\<lparr>si_text = ''Preis (60%)'', source_document = JStr [], source_chunk_id = JNull,
              detail = None\<rparr>]"
    by code_simp
  from pickTopCriteria_zero_or_missing_weight [OF h] h show ?thesis by simp
qed

section \<open>pickTopRequirements\<close>

lemma set_req_loop:
  "set (req_loop p seen result xs) \<subseteq> set result \<union> req_out p ` set xs"
  by (induction p seen result xs rule: req_loop.induct) (auto simp: Let_def)

lemma req_example_value:
  "pickTopRequirements req_example JUndefined =
     Inr [\<lparr>si_text = ''Handelsregisterauszug'', source_document = JStr [],
            source_chunk_id = JNull, detail = Some ''unbekannt''\<rparr>]"
  by code_simp

text \<open>
  Claim C4, as stated, fails: a requirement whose explanation is the placeholder
  \<^verbatim>\<open>unbekannt\<close> is returned with that text as its detail.
\<close>

theorem pickTopRequirements_placeholder_detail_kept:
  "pickTopRequirements req_example JUndefined =
     Inr [\<lparr>si_text = ''Handelsregisterauszug'', source_document = JStr [],
            source_chunk_id = JNull, detail = Some ''unbekannt''\<rparr>] \<and>
   is_placeholder ''unbekannt''"
  by code_simp

text \<open>
  Claim C4, amended. Every record that \<^verbatim>\<open>pickTopRequirements\<close> returns comes from a
  requirement of the input: its text is that requirement's trimmed text, and it carries a
  detail exactly when the requirement's trimmed explanation (the first truthy one of
  \<^verbatim>\<open>explanation_de\<close>, \<^verbatim>\<open>explanation\<close>, \<^verbatim>\<open>description_de\<close>) is not empty, in which case the
  detail is that text, placeholder or not.
\<close>

theorem pickTopRequirements_detail:
  assumes "pickTopRequirements requirements metaSource = Inr out" and "r \<in> set out"
  shows "\<exists>req \<in> set requirements. \<exists>d.
           trim_method (requirement_text req) = Inr (si_text r) \<and>
           trim_method (requirement_detail req) = Inr d \<and>
           detail r = (if d = [] then None else Some d)"
proof -
  from assms(1) obtain primarySource entries where
      e: "emap req_entry_of (enumerate 0 requirements) = Inr entries"
    and o: "out = req_loop primarySource [] []
              (js_sort (req_cmp primarySource)
                 (filter (\<lambda>req. rq_text req \<noteq> [] \<and> \<not> is_placeholder (rq_text req)) entries))"
    by (auto simp: pickTopRequirements_def ebind_Inr_iff Let_def)
  from assms(2) o set_req_loop obtain en where en: "en \<in> set entries"
    and r: "r = req_out primarySource en"
    by (fastforce simp: set_js_sort)
  from emap_Inr_set[OF e en] obtain ix where ix: "ix \<in> set (enumerate 0 requirements)"
    and f: "req_entry_of ix = Inr en" by blast
  from ix have mem: "snd ix \<in> set requirements" by (rule in_set_enumerate_snd)
  from f have "trim_method (requirement_text (snd ix)) = Inr (rq_text en) \<and>
               trim_method (requirement_detail (snd ix)) = Inr (rq_detail en)"
    by (auto simp: req_entry_of_def Let_def ebind_Inr_iff requirement_text_def requirement_detail_def)
  with mem r show ?thesis by (auto simp: req_out_def)
qed

theorem pickTopRequirements_detail_witness:
  "trim_method (requirement_text (JObj [(''requirement_de'', JStr ''Handelsregisterauszug''),
       (''explanation_de'', JStr ''unbekannt'')])) = Inr ''Handelsregisterauszug'' \<and>
   trim_method (requirement_detail (JObj [(''requirement_de'', JStr ''Handelsregisterauszug''),
       (''explanation_de'', JStr ''unbekannt'')])) = Inr ''unbekannt''"
proof -
  let ?r = "\<lparr>si_text = ''Handelsregisterauszug'', source_document = JStr [],
             source_chunk_id = JNull, detail = Some ''unbekannt''\<rparr>"
  have m: "?r \<in> set [?r]" by simp
  from pickTopRequirements_detail [OF req_example_value m] show ?thesis
    by (auto simp: req_example_def split: if_splits)
qed

section \<open>pickTopRisks\<close>

lemma severityRank_tier: "\<not> inherited_name s \<Longrightarrow> severityRank s = Fin (of_int (tier s))"
  by (simp add: severityRank_def tier_def inherited_name_def)

lemma risk_cmp_key:
  assumes "\<not> inherited_name (rk_severity x)" and "\<not> inherited_name (rk_severity y)"
  shows "num_pos (risk_cmp x y) \<longleftrightarrow> \<not> risk_key x \<le> risk_key y"
  using assms
  by (auto simp: risk_cmp_def severityRank_tier risk_key_def Let_def)

text \<open>
  What holds of \<^verbatim>\<open>pickTopRisks\<close> for every input: at most five records are returned, and a
  record without a severity string, or with a placeholder text, never enters the
  deduplicated list. When no surviving severity is one of the two inherited names, the
  result is the stable sort of the deduplicated list by descending tier and ascending input
  index, cut after five.
\<close>

lemma pickTopRisks_sorted_outside_inherited:
  assumes "risks_deduped rt risks metaSource = Inr vals"
      and "\<And>e. e \<in> set vals \<Longrightarrow> \<not> inherited_name (rk_severity e)"
  shows "pickTopRisks rt risks metaSource = Inr (map risk_out (take 5 (sort_key risk_key vals)))"
proof -
  have "js_sort risk_cmp vals = sort_key risk_key vals"
    by (rule js_sort_sort_key) (use assms(2) in \<open>auto simp: risk_cmp_key\<close>)
  then show ?thesis by (simp add: pickTopRisks_def assms(1))
qed

lemma pickTopRisks_at_most_5:
  "pickTopRisks rt risks metaSource = Inr out \<Longrightarrow> length out \<le> 5"
  by (auto simp: pickTopRisks_def ebind_Inr_iff)


lemma risk_step_severity:
  assumes inv: "\<forall>p \<in> set deduped. rk_severity (snd p) \<noteq> [] \<and> \<not> is_placeholder (rk_text (snd p))"
      and st: "risk_step rt ms deduped ix = Inr deduped'"
  shows "\<forall>p \<in> set deduped'. rk_severity (snd p) \<noteq> [] \<and> \<not> is_placeholder (rk_text (snd p))"
proof -
  from st obtain rtext sev where tx: "trim_method (js_or (get (snd ix) ''risk_de'') (js_or (get (snd ix) ''text'') (JStr []))) = Inr rtext"
    and sv: "toString_method rt (js_or (get (snd ix) ''severity'') (JStr [])) = Inr sev"
    by (auto simp: risk_step_def Let_def ebind_Inr_iff)
  show ?thesis
  proof (cases "rtext = [] \<or> is_placeholder rtext \<or> toLowerCase sev = [] \<or> normalizeText rtext = []")
    case True
    with st tx sv have "deduped' = deduped" by (auto simp: risk_step_def Let_def split: if_splits)
    with inv show ?thesis by simp
  next
    case False
    show ?thesis
    proof (cases "map_of deduped (normalizeText rtext)")
      case None
      with st tx sv False have "deduped' = map_set deduped (normalizeText rtext)
          \<lparr>rk_text = rtext,
           rk_source_document = js_or (get (snd ix) ''source_document'') (js_or ms (JStr [])),
           rk_source_chunk_id = nullish (get (snd ix) ''source_chunk_id'') JNull,
           rk_severity = toLowerCase sev, rk_index = fst ix\<rparr>"
        by (auto simp: risk_step_def Let_def split: if_splits)
      with inv False set_map_set show ?thesis by fastforce
    next
      case (Some existing)
      then have ex: "(normalizeText rtext, existing) \<in> set deduped" by (rule map_of_SomeD)
      from st tx sv False Some obtain merged where
        "deduped' = map_set deduped (normalizeText rtext) (existing\<lparr>rk_source_document := JStr merged\<rparr>)"
        by (auto simp: risk_step_def Let_def ebind_Inr_iff split: if_splits)
      with inv ex set_map_set show ?thesis by fastforce
    qed
  qed
qed

lemma risks_deduped_severity:
  assumes "risks_deduped rt risks metaSource = Inr vals" and "e \<in> set vals"
  shows "rk_severity e \<noteq> [] \<and> \<not> is_placeholder (rk_text e)"
proof -
  from assms(1) obtain deduped where
    d: "efold (risk_step rt metaSource) [] (enumerate 0 risks) = Inr deduped"
    and v: "vals = map snd deduped"
    by (auto simp: risks_deduped_def ebind_Inr_iff)
  have "\<forall>p \<in> set deduped. rk_severity (snd p) \<noteq> [] \<and> \<not> is_placeholder (rk_text (snd p))"
    by (rule efold_invariant[OF d]) (simp, rule risk_step_severity)
  with assms(2) v show ?thesis by auto
qed


text \<open>
  Claim C6 fails on the code for a severity that names a property every object inherits. The
  risk \<^verbatim>\<open>Alpha\<close> has the unknown severity \<^verbatim>\<open>constructor\<close> and precedes the risk \<^verbatim>\<open>Bravo\<close> of
  severity \<^verbatim>\<open>high\<close>; ranked as low it would come second, and the code returns it first.
\<close>

theorem pickTopRisks_inherited_severity:
  "pickTopRisks rt
     [JObj [(''risk_de'', JStr ''Alpha''), (''severity'', JStr ''constructor'')],
      JObj [(''risk_de'', JStr ''Bravo''), (''severity'', JStr ''high'')]] JUndefined =
   Inr [\<lparr>si_text = ''Alpha'', source_document = JStr [], source_chunk_id = JNull, detail = None\<rparr>,
        \<lparr>si_text = ''Bravo'', source_document = JStr [], source_chunk_id = JNull, detail = None\<rparr>]"
  by code_simp

section \<open>buildTimelineSteps\<close>

text \<open>
  A word without white space occurs in a text exactly when it occurs in the text trimmed
  and with its runs of white space collapsed.
\<close>

lemma sublist_dropWhile:
  assumes "\<forall>c \<in> set k. \<not> is_ws c"
  shows "sublist k (dropWhile is_ws s) \<longleftrightarrow> sublist k s"
proof (induction s)
  case Nil
  show ?case by simp
next
  case (Cons c s)
  show ?case
  proof (cases "is_ws c")
    case True
    then have "\<not> prefix k (c # s) \<or> k = []" using assms by (cases k) auto
    then show ?thesis using True Cons by (auto simp: sublist_Cons_right)
  next
    case False
    then show ?thesis by simp
  qed
qed

lemma sublist_trim:
  assumes "\<forall>c \<in> set k. \<not> is_ws c"
  shows "sublist k (trim s) \<longleftrightarrow> sublist k s"
proof -
  have r: "\<forall>c \<in> set (rev k). \<not> is_ws c" using assms by simp
  have "sublist k (trim s) \<longleftrightarrow> sublist (rev k) (dropWhile is_ws (rev (dropWhile is_ws s)))"
    unfolding trim_def by (metis rev_rev_ident sublist_rev)
  also have "\<dots> \<longleftrightarrow> sublist (rev k) (rev (dropWhile is_ws s))"
    by (rule sublist_dropWhile [OF r])
  also have "\<dots> \<longleftrightarrow> sublist k (dropWhile is_ws s)" by simp
  also have "\<dots> \<longleftrightarrow> sublist k s" by (rule sublist_dropWhile [OF assms])
  finally show ?thesis .
qed

lemma prefix_collapse_ws:
  "\<forall>c \<in> set k. \<not> is_ws c \<Longrightarrow> prefix k (collapse_ws s) \<longleftrightarrow> prefix k s"
proof (induction s arbitrary: k rule: collapse_ws.induct)
  case 1
  show ?case by simp
next
  case (2 c cs)
  show ?case
  proof (cases k)
    case Nil
    then show ?thesis by simp
  next
    case (Cons x xs)
    have x: "\<not> is_ws x" "\<forall>c \<in> set xs. \<not> is_ws c" using 2(3) Cons by simp_all
    have sp: "is_ws CHR '' ''" by (simp add: is_ws_def)
    show ?thesis
    proof (cases "is_ws c")
      case True
      then show ?thesis using x(1) sp Cons by auto
    next
      case False
      then show ?thesis using 2(2) [OF False x(2)] Cons by simp
    qed
  qed
qed

lemma sublist_collapse_ws:
  "\<forall>c \<in> set k. \<not> is_ws c \<Longrightarrow> sublist k (collapse_ws s) \<longleftrightarrow> sublist k s"
proof (induction s rule: collapse_ws.induct)
  case 1
  show ?case by simp
next
  case (2 c cs)
  have sp: "is_ws CHR '' ''" by (simp add: is_ws_def)
  show ?case
  proof (cases "is_ws c")
    case True
    have np: "\<not> prefix k (x # t) \<or> k = []" if "is_ws x" for x t
      using 2(3) that by (cases k) auto
    have "sublist k (collapse_ws (c # cs)) \<longleftrightarrow> sublist k (collapse_ws (dropWhile is_ws cs))"
      using True np [OF sp] by (auto simp: sublist_Cons_right)
    also have "\<dots> \<longleftrightarrow> sublist k (dropWhile is_ws cs)" using 2(1) [OF True 2(3)] .
    also have "\<dots> \<longleftrightarrow> sublist k cs" by (rule sublist_dropWhile [OF 2(3)])
    also have "\<dots> \<longleftrightarrow> sublist k (c # cs)" using np [OF True] by (auto simp: sublist_Cons_right)
    finally show ?thesis .
  next
    case False
    have "prefix k (c # collapse_ws cs) \<longleftrightarrow> prefix k (c # cs)"
      using prefix_collapse_ws [OF 2(3), of "c # cs"] False by simp
    then show ?thesis using False 2(2) [OF False 2(3)] by (simp add: sublist_Cons_right)
  qed
qed

lemma sublist_normalizeText:
  assumes "\<forall>c \<in> set k. \<not> is_ws c"
  shows "sublist k (normalizeText s) \<longleftrightarrow> sublist k (map to_lower_char s)"
  unfolding normalizeText_def toLowerCase_def
  by (simp add: sublist_collapse_ws [OF assms] sublist_trim [OF assms])

lemma keywords_no_ws: "\<forall>b \<in> set buckets. \<forall>k \<in> set (keywords_of b). \<forall>c \<in> set k. \<not> is_ws c"
  by (simp add: buckets_def is_ws_def)

lemma find_bucket_assigned: "find_bucket s = assigned_bucket s"
  unfolding find_bucket_def assigned_bucket_def
proof (rule find_cong [OF refl])
  fix b assume "b \<in> set buckets"
  then have "\<forall>k \<in> set (keywords_of b). \<forall>c \<in> set k. \<not> is_ws c" using keywords_no_ws by blast
  then show "(\<exists>keyword \<in> set (keywords_of b). str_includes (haystack_of s) keyword)
               = matches_bucket b s"
    by (auto simp: matches_bucket_def haystack_of_def str_includes_sublist sublist_normalizeText)
qed

lemma inj_key_buckets: "inj_on key (set buckets)"
  by (simp add: buckets_def)

lemma assigned_in_buckets: "assigned_bucket s = Some b \<Longrightarrow> b \<in> set buckets"
  by (auto simp: assigned_bucket_def find_Some_iff)

lemma key_assigned_iff:
  assumes "b \<in> set buckets"
  shows "map_option key (assigned_bucket s) = Some (key b) \<longleftrightarrow> assigned_bucket s = Some b"
proof
  assume "map_option key (assigned_bucket s) = Some (key b)"
  then obtain b' where b': "assigned_bucket s = Some b'" and k: "key b' = key b" by auto
  from b' have "b' \<in> set buckets" by (rule assigned_in_buckets)
  with k assms inj_key_buckets have "b' = b" by (auto dest: inj_onD)
  with b' show "assigned_bucket s = Some b" by simp
qed simp

lemma bucket_step_apply:
  "bucket_step m s k =
     (case m k of Some x \<Rightarrow> Some x
      | None \<Rightarrow> if map_option key (assigned_bucket s) = Some k then Some s else None)"
  by (auto simp: bucket_step_def find_bucket_assigned split: option.splits)

lemma foldl_bucket_step:
  "foldl bucket_step m valid k =
     (case m k of Some s \<Rightarrow> Some s
      | None \<Rightarrow> find (\<lambda>s. map_option key (assigned_bucket s) = Some k) valid)"
proof (induction valid arbitrary: m)
  case Nil
  show ?case by (simp split: option.splits)
next
  case (Cons s valid)
  have "foldl bucket_step m (s # valid) k = foldl bucket_step (bucket_step m s) valid k"
    by simp
  also have "\<dots> = (case bucket_step m s k of Some x \<Rightarrow> Some x
      | None \<Rightarrow> find (\<lambda>s. map_option key (assigned_bucket s) = Some k) valid)"
    by (rule Cons.IH)
  also have "\<dots> = (case m k of Some x \<Rightarrow> Some x
      | None \<Rightarrow> find (\<lambda>s. map_option key (assigned_bucket s) = Some k) (s # valid))"
    unfolding bucket_step_apply by (cases "m k") auto
  finally show ?case .
qed

lemma bucketed_first_assigned:
  assumes "b \<in> set buckets"
  shows "foldl bucket_step Map.empty valid (key b) = first_assigned valid b"
proof -
  have "(\<lambda>s. map_option key (assigned_bucket s) = Some (key b)) = (\<lambda>s. assigned_bucket s = Some b)"
    by (rule ext) (rule key_assigned_iff[OF assms])
  then show ?thesis unfolding foldl_bucket_step first_assigned_def by simp
qed

lemma map_filter_cong_set:
  "(\<And>x. x \<in> set xs \<Longrightarrow> f x = g x) \<Longrightarrow> List.map_filter f xs = List.map_filter g xs"
  by (induction xs) (simp_all split: option.splits)

lemma map_filter_id_map: "List.map_filter (\<lambda>x. x) (map f xs) = List.map_filter f xs"
  by (induction xs) (simp_all split: option.splits)

lemma length_map_filter_le: "length (List.map_filter f xs) \<le> length xs"
  by (induction xs) (simp_all split: option.splits)

lemma length_buckets: "length buckets = 6"
  by (simp add: buckets_def)

lemma submission_empty_iff:
  "foldl bucket_step Map.empty valid ''submission'' = None \<longleftrightarrow> submission_empty valid"
  unfolding foldl_bucket_step submission_empty_def
  by (auto simp: find_None_iff list_ex_iff)

lemma slots_of_buckets:
  fixes valid synthesized
  defines "m \<equiv> foldl bucket_step Map.empty valid"
  shows "List.map_filter
           (\<lambda>b. (if m ''submission'' = None then m(''submission'' := synthesized) else m) (key b))
           buckets
         = List.map_filter (\<lambda>x. x) (timeline_slots valid synthesized)"
proof -
  define sb where "sb = \<lparr>key = ''submission'', label = ''Angebotsabgabe'',
       keywords_of = [''abgabe'', ''einreich'', ''submission'', ''angebot'']\<rparr>"
  have sub: "sb \<in> set buckets" by (simp add: buckets_def sb_def)
  have ksb: "key sb = ''submission''" by (simp add: sb_def)
  have msub: "m ''submission'' = first_assigned valid sb"
    using bucketed_first_assigned [OF sub, of valid] by (simp add: m_def ksb)
  have slot: "(if m ''submission'' = None then m(''submission'' := synthesized) else m) (key b) =
      (case first_assigned valid b of Some s \<Rightarrow> Some s
       | None \<Rightarrow> (if key b = ''submission'' then synthesized else None))"
    if b: "b \<in> set buckets" for b
  proof (cases "key b = ''submission''")
    case True
    then have "key b = key sb" by (simp add: ksb)
    from inj_onD [OF inj_key_buckets this b sub] have "b = sb" .
    then show ?thesis using msub by (simp add: ksb split: option.splits)
  next
    case False
    then show ?thesis using bucketed_first_assigned [OF b, of valid]
      by (simp add: m_def split: option.splits)
  qed
  show ?thesis unfolding timeline_slots_def map_filter_id_map
    by (rule map_filter_cong_set) (rule slot)
qed

lemma numbered_step_out:
  "map step_out (enumerate 0 (List.map_filter (\<lambda>x. x) slots)) = numbered slots"
  unfolding numbered_def Let_def
  by (rule nth_equalityI) (simp_all add: step_out_def nth_enumerate_eq Let_def)

lemma output_of_slots:
  fixes valid synthesized
  defines "m \<equiv> foldl bucket_step Map.empty valid"
  shows "map step_out (enumerate 0 (take 6 (List.map_filter
           (\<lambda>b. (if m ''submission'' = None then m(''submission'' := synthesized) else m) (key b))
           buckets)))
         = numbered (timeline_slots valid synthesized)"
proof -
  have "length (List.map_filter (\<lambda>x. x) (timeline_slots valid synthesized)) \<le> 6"
    using length_map_filter_le [of "\<lambda>x. x" "timeline_slots valid synthesized"]
    by (simp add: timeline_slots_def length_buckets)
  then show ?thesis
    unfolding m_def slots_of_buckets by (simp add: numbered_step_out)
qed

text \<open>
  Claim C7. The buckets are declared in the order preparation, review, submission,
  clarifications, award, execution. On the surviving steps \<open>valid\<close> \<^verbatim>\<open>buildTimelineSteps\<close>
  returns the slots of the six buckets in that order, the empty ones skipped and the rest
  numbered from 1: the slot of a bucket holds the first surviving step, in input order,
  whose first matching bucket it is, so that a step that matches no bucket is in no slot.
  When no surviving step is assigned to the submission bucket and
  \<^verbatim>\<open>timeline.submission_deadline_de\<close> is truthy, the submission slot holds the step synthesized
  from the text of the deadline, and the function throws if the deadline has no text; in
  every other case the deadline is not converted. The function throws when the computation
  of the surviving steps does.
\<close>

theorem buildTimelineSteps_buckets:
  "map key buckets =
     [''preparation'', ''review'', ''submission'', ''clarifications'', ''award'', ''execution''] \<and>
   buildTimelineSteps rt steps timeline metaSource =
     ebind (validSteps steps metaSource) (\<lambda>valid.
       if submission_empty valid \<and> truthy (get timeline ''submission_deadline_de'')
       then ebind (to_string rt (get timeline ''submission_deadline_de'')) (\<lambda>dl.
              Inr (numbered (timeline_slots valid
                     (Some (synthesized_step dl timeline metaSource)))))
       else Inr (numbered (timeline_slots valid None)))"
proof -
  have k: "map key buckets =
     [''preparation'', ''review'', ''submission'', ''clarifications'', ''award'', ''execution'']"
    by (simp add: buckets_def)
  have b: "ebind (synthesize_submission rt timeline metaSource (foldl bucket_step Map.empty valid))
             (\<lambda>bucketed. Inr (map step_out (enumerate 0
                (take 6 (List.map_filter (\<lambda>b. bucketed (key b)) buckets))))) =
           (if submission_empty valid \<and> truthy (get timeline ''submission_deadline_de'')
            then ebind (to_string rt (get timeline ''submission_deadline_de'')) (\<lambda>dl.
                   Inr (numbered (timeline_slots valid
                          (Some (synthesized_step dl timeline metaSource)))))
            else Inr (numbered (timeline_slots valid None)))" for valid
  proof -
    define m where "m = foldl bucket_step Map.empty valid"
    have out: "map step_out (enumerate 0 (take 6 (List.map_filter
           (\<lambda>b. (if m ''submission'' = None then m(''submission'' := synthesized) else m) (key b))
           buckets)))
         = numbered (timeline_slots valid synthesized)" for synthesized
      unfolding m_def by (rule output_of_slots)
    show ?thesis
    proof (cases "submission_empty valid \<and> truthy (get timeline ''submission_deadline_de'')")
      case True
      then have e: "m ''submission'' = None" by (simp add: m_def submission_empty_iff)
      show ?thesis
      proof (cases "to_string rt (get timeline ''submission_deadline_de'')")
        case (Inl err)
        then show ?thesis using True e
          by (simp add: synthesize_submission_def m_def [symmetric])
      next
        case (Inr dl)
        show ?thesis
          using True e Inr out [of "Some (synthesized_step dl timeline metaSource)"]
          by (simp add: synthesize_submission_def m_def [symmetric])
      qed
    next
      case False
      then have s: "synthesize_submission rt timeline metaSource m = Inr m"
        by (auto simp: synthesize_submission_def m_def submission_empty_iff)
      have "(if m ''submission'' = None then m(''submission'' := None) else m) = m" by auto
      with out [of None] have "map step_out (enumerate 0 (take 6
          (List.map_filter (\<lambda>b. m (key b)) buckets))) = numbered (timeline_slots valid None)"
        by simp
      then show ?thesis using False by (auto simp: s m_def [symmetric])
    qed
  qed
  have "buildTimelineSteps rt steps timeline metaSource =
     ebind (validSteps steps metaSource) (\<lambda>valid.
       if submission_empty valid \<and> truthy (get timeline ''submission_deadline_de'')
       then ebind (to_string rt (get timeline ''submission_deadline_de'')) (\<lambda>dl.
              Inr (numbered (timeline_slots valid
                     (Some (synthesized_step dl timeline metaSource)))))
       else Inr (numbered (timeline_slots valid None)))"
    unfolding buildTimelineSteps_def b ..
  with k show ?thesis by simp
qed

theorem buildTimelineSteps_buckets_witness:
  "buildTimelineSteps integer_runtime timeline_example timeline_example_deadline (JStr ''a.pdf'') =
     Inr [\<lparr>step = 1, title_de = ''PLANUNG  der Baustelle'', description_de = [],
            days_de = ''14'', ps_source_document = JStr ''a.pdf'', ps_source_chunk_id = JNull\<rparr>,
          \<lparr>step = 2, title_de = ''Termin'',
            description_de = ''Interne PR'' @ [CHR 0xDC] @ ''FUNG'', days_de = [],
            ps_source_document = JStr ''a.pdf'', ps_source_chunk_id = JStr ''c7''\<rparr>,
          \<lparr>step = 3, title_de = ''Angebotsabgabe'',
            description_de = ''Abgabefrist: 2025-12-15'', days_de = [],
            ps_source_document = JStr ''t.pdf'', ps_source_chunk_id = JNull\<rparr>,
          \<lparr>step = 4, title_de = ''Zuschlag'',
            description_de = ''Entscheidung der Vergabestelle'', days_de = [],
            ps_source_document = JStr ''a.pdf'', ps_source_chunk_id = JNull\<rparr>,
          \<lparr>step = 5, title_de = ''Start'', description_de = [], days_de = [],
            ps_source_document = JStr ''b.pdf'', ps_source_chunk_id = JNull\<rparr>] \<and>
   buildTimelineSteps integer_runtime timeline_example_filled timeline_example_object (JStr ''a.pdf'') =
     Inr [\<lparr>step = 1, title_de = ''Angebot einreichen'', description_de = [],
            days_de = [], ps_source_document = JStr ''a.pdf'', ps_source_chunk_id = JNull\<rparr>] \<and>
   buildTimelineSteps integer_runtime [] timeline_example_object (JStr ''a.pdf'') = Inl TypeError"
proof -
  have a: "ebind (validSteps timeline_example (JStr ''a.pdf'')) (\<lambda>valid.
       if submission_empty valid \<and> truthy (get timeline_example_deadline ''submission_deadline_de'')
       then ebind (to_string integer_runtime (get timeline_example_deadline ''submission_deadline_de''))
              (\<lambda>dl. Inr (numbered (timeline_slots valid
                     (Some (synthesized_step dl timeline_example_deadline (JStr ''a.pdf''))))))
       else Inr (numbered (timeline_slots valid None))) =
     Inr [\<lparr>step = 1, title_de = ''PLANUNG  der Baustelle'', description_de = [],
            days_de = ''14'', ps_source_document = JStr ''a.pdf'', ps_source_chunk_id = JNull\<rparr>,
          \<lparr>step = 2, title_de = ''Termin'',
            description_de = ''Interne PR'' @ [CHR 0xDC] @ ''FUNG'', days_de = [],
            ps_source_document = JStr ''a.pdf'', ps_source_chunk_id = JStr ''c7''\<rparr>,
          \<lparr>step = 3, title_de = ''Angebotsabgabe'',
            description_de = ''Abgabefrist: 2025-12-15'', days_de = [],
            ps_source_document = JStr ''t.pdf'', ps_source_chunk_id = JNull\<rparr>,
          \<lparr>step = 4, title_de = ''Zuschlag'',
            description_de = ''Entscheidung der Vergabestelle'', days_de = [],
            ps_source_document = JStr ''a.pdf'', ps_source_chunk_id = JNull\<rparr>,
          \<lparr>step = 5, title_de = ''Start'', description_de = [], days_de = [],
            ps_source_document = JStr ''b.pdf'', ps_source_chunk_id = JNull\<rparr>]"
    by code_simp
  have b: "ebind (validSteps timeline_example_filled (JStr ''a.pdf'')) (\<lambda>valid.
       if submission_empty valid \<and> truthy (get timeline_example_object ''submission_deadline_de'')
       then ebind (to_string integer_runtime (get timeline_example_object ''submission_deadline_de''))
              (\<lambda>dl. Inr (numbered (timeline_slots valid
                     (Some (synthesized_step dl timeline_example_object (JStr ''a.pdf''))))))
       else Inr (numbered (timeline_slots valid None))) =
     Inr [\<lparr>step = 1, title_de = ''Angebot einreichen'', description_de = [],
            days_de = [], ps_source_document = JStr ''a.pdf'', ps_source_chunk_id = JNull\<rparr>]"
    by code_simp
  have c: "ebind (validSteps [] (JStr ''a.pdf'')) (\<lambda>valid.
       if submission_empty valid \<and> truthy (get timeline_example_object ''submission_deadline_de'')
       then ebind (to_string integer_runtime (get timeline_example_object ''submission_deadline_de''))
              (\<lambda>dl. Inr (numbered (timeline_slots valid
                     (Some (synthesized_step dl timeline_example_object (JStr ''a.pdf''))))))
       else Inr (numbered (timeline_slots valid None))) = Inl TypeError"
    by code_simp
  show ?thesis
    using buildTimelineSteps_buckets [THEN conjunct2, of integer_runtime timeline_example
            timeline_example_deadline "JStr ''a.pdf''"]
      buildTimelineSteps_buckets [THEN conjunct2, of integer_runtime timeline_example_filled
            timeline_example_object "JStr ''a.pdf''"]
      buildTimelineSteps_buckets [THEN conjunct2, of integer_runtime "[]"
            timeline_example_object "JStr ''a.pdf''"]
    by (simp only: a b c)
qed

section \<open>mapSummaryToTender\<close>

lemma trim_unbekannt: "trim ''unbekannt'' = ''unbekannt''"
  by (simp add: trim_def is_ws_def)

lemma is_placeholder_unbekannt: "is_placeholder ''unbekannt''"
  by (simp add: is_placeholder_def placeholder_text_def normalizeText_def toLowerCase_def
      to_lower_char_def trim_def is_ws_def PLACEHOLDERS_def)

lemma is_placeholder_Nil: "is_placeholder []"
  by (simp add: is_placeholder_def)

lemma get_unb_item: "unb_item v \<Longrightarrow> unb_or_absent (get v k)"
proof -
  assume a: "unb_item v"
  show ?thesis
  proof (cases v)
    case (JObj kvs)
    with a have all: "list_all (\<lambda>p. snd p = unb) kvs"
      by (auto simp: unb_item_def unb_fields_def unb_def)
    show ?thesis
    proof (cases "map_of kvs k")
      case None
      with JObj show ?thesis by (simp add: unb_or_absent_def)
    next
      case (Some x)
      then have "(k, x) \<in> set kvs" by (rule map_of_SomeD)
      with all have "x = unb" by (auto simp: list_all_iff)
      with JObj Some show ?thesis by (simp add: unb_or_absent_def)
    qed
  qed (simp_all add: unb_or_absent_def)
qed

lemma get_js_or_empty: "get (js_or v (JObj [])) k = get v k"
  by (cases v) (auto simp: js_or_def)

lemma get_bundle: "unb_bundle ui \<Longrightarrow> get ui k = JUndefined \<or> unb_section (get ui k)"
proof -
  assume a: "unb_bundle ui"
  then obtain secs where ui: "ui = JObj secs" and all: "list_all (\<lambda>p. unb_section (snd p)) secs"
    by (cases ui) (auto simp: unb_bundle_def)
  show ?thesis
  proof (cases "map_of secs k")
    case None
    with ui show ?thesis by simp
  next
    case (Some x)
    then have "(k, x) \<in> set secs" by (rule map_of_SomeD)
    with all have "unb_section x" by (auto simp: list_all_iff)
    with ui Some show ?thesis by simp
  qed
qed

lemma field_of_bundle: "unb_bundle ui \<Longrightarrow> unb_or_absent (field_of ui sec k)"
proof -
  assume a: "unb_bundle ui"
  from get_bundle[OF a, of sec] show ?thesis
  proof
    assume "get ui sec = JUndefined"
    then show ?thesis by (simp add: field_of_def unb_or_absent_def)
  next
    assume s: "unb_section (get ui sec)"
    show ?thesis
    proof (cases "unb_item (get ui sec)")
      case True
      then show ?thesis unfolding field_of_def by (rule get_unb_item)
    next
      case False
      with s obtain xs where "get ui sec = JArr xs"
        by (cases "get ui sec") (auto simp: unb_section_def)
      then show ?thesis by (simp add: field_of_def unb_or_absent_def)
    qed
  qed
qed

lemma items_of_bundle: "unb_bundle ui \<Longrightarrow> list_all unb_item (array_or_empty (get ui k))"
proof -
  assume a: "unb_bundle ui"
  from get_bundle[OF a, of k] show ?thesis
  proof
    assume "get ui k = JUndefined"
    then show ?thesis by (simp add: array_or_empty_def)
  next
    assume s: "unb_section (get ui k)"
    then show ?thesis
      by (cases "get ui k") (auto simp: unb_section_def array_or_empty_def unb_item_def unb_def unb_fields_def)
  qed
qed

lemma json_clone_unb_item: "unb_item v \<Longrightarrow> json_clone v = v"
proof -
  assume a: "unb_item v"
  show ?thesis
  proof (cases v)
    case (JObj kvs)
    with a have all: "list_all (\<lambda>p. snd p = unb) kvs"
      by (auto simp: unb_item_def unb_fields_def unb_def)
    have "map (\<lambda>p. (fst p, json_clone (snd p))) kvs = kvs"
      by (rule map_idI) (use all in \<open>auto simp: list_all_iff unb_def\<close>)
    with JObj show ?thesis by simp
  qed (use a in \<open>auto simp: unb_item_def unb_def unb_fields_def\<close>)
qed

lemma unb_item_defined: "unb_item v \<Longrightarrow> v \<noteq> JUndefined"
  by (auto simp: unb_item_def unb_def unb_fields_def)

lemma json_clone_unb_section: "unb_section v \<Longrightarrow> json_clone v = v"
proof -
  assume a: "unb_section v"
  show ?thesis
  proof (cases "unb_item v")
    case True
    then show ?thesis by (rule json_clone_unb_item)
  next
    case False
    with a obtain xs where v: "v = JArr xs" and all: "list_all unb_item xs"
      by (cases v) (auto simp: unb_section_def)
    have "map (\<lambda>x. if x = JUndefined then JNull else json_clone x) xs = xs"
      by (rule map_idI) (use all in \<open>auto simp: list_all_iff json_clone_unb_item unb_item_defined\<close>)
    with v show ?thesis by simp
  qed
qed

lemma json_clone_unb_bundle: "unb_bundle ui \<Longrightarrow> json_clone ui = ui"
proof -
  assume a: "unb_bundle ui"
  then obtain secs where ui: "ui = JObj secs" and all: "list_all (\<lambda>p. unb_section (snd p)) secs"
    by (cases ui) (auto simp: unb_bundle_def)
  have "map (\<lambda>p. (fst p, json_clone (snd p))) secs = secs"
    by (rule map_idI) (use all in \<open>auto simp: list_all_iff json_clone_unb_section\<close>)
  with ui show ?thesis by simp
qed

lemma text_of_unb:
  assumes "unb_or_absent a"
  shows "\<exists>t. trim_method (js_or a (JStr [])) = Inr t \<and> is_placeholder t"
  using assms
  by (auto simp: unb_or_absent_def unb_def js_or_def trim_unbekannt trim_Nil
      is_placeholder_unbekannt is_placeholder_Nil)

lemma text_of_unb2:
  assumes "unb_or_absent a" and "unb_or_absent b"
  shows "\<exists>t. trim_method (js_or a (js_or b (JStr []))) = Inr t \<and> is_placeholder t"
  using assms
  by (auto simp: unb_or_absent_def unb_def js_or_def trim_unbekannt trim_Nil
      is_placeholder_unbekannt is_placeholder_Nil)

lemma text_of_unb3:
  assumes "unb_or_absent a" and "unb_or_absent b" and "unb_or_absent c"
  shows "\<exists>t. trim_method (js_or a (js_or b (js_or c (JStr [])))) = Inr t"
  using assms
  by (auto simp: unb_or_absent_def unb_def js_or_def)

lemma emap_exists:
  assumes "\<And>x. x \<in> set xs \<Longrightarrow> \<exists>y. f x = Inr y \<and> Q y"
  shows "\<exists>ys. emap f xs = Inr ys \<and> list_all Q ys"
  using assms
proof (induction xs)
  case Nil
  show ?case by (simp add: emap_def)
next
  case (Cons x xs)
  from Cons.prems obtain y where y: "f x = Inr y" "Q y" by auto
  from Cons obtain ys where ys: "emap f xs = Inr ys" "list_all Q ys" by auto
  from y ys show ?case by (auto simp: emap_def)
qed

lemma risk_step_unb:
  assumes "unb_item x"
  shows "risk_step rt ms deduped (i, x) = Inr deduped"
proof -
  from text_of_unb2[OF get_unb_item[OF assms, of "''risk_de''"] get_unb_item[OF assms, of "''text''"]]
  obtain t where t: "trim_method (js_or (get x ''risk_de'') (js_or (get x ''text'') (JStr []))) = Inr t"
    and p: "is_placeholder t" by blast
  from get_unb_item[OF assms, of "''severity''"]
  obtain sv where sv: "toString_method rt (js_or (get x ''severity'') (JStr [])) = Inr sv"
    by (auto simp: unb_or_absent_def unb_def js_or_def toString_method_def)
  show ?thesis by (simp add: risk_step_def t sv p Let_def)
qed

lemma pickTopRisks_unb:
  assumes "list_all unb_item xs"
  shows "pickTopRisks rt xs ms = Inr []"
proof -
  have "efold (risk_step rt ms) [] (enumerate 0 xs) = Inr []"
  proof (rule efold_unchanged)
    fix ix assume "ix \<in> set (enumerate 0 xs)"
    then have "unb_item (snd ix)" using assms in_set_enumerate_snd by (fastforce simp: list_all_iff)
    from risk_step_unb[OF this, of rt ms "[]" "fst ix"] show "risk_step rt ms [] ix = Inr []" by simp
  qed
  then show ?thesis by (simp add: pickTopRisks_def risks_deduped_def js_sort_def)
qed

lemma crit_step_unb:
  assumes "unb_item x"
  shows "crit_step rt ms seen x = Inr seen"
proof -
  from text_of_unb2[OF get_unb_item[OF assms, of "''criterion_de''"] get_unb_item[OF assms, of "''text''"]]
  obtain t where t: "trim_method (js_or (get x ''criterion_de'') (js_or (get x ''text'') (JStr []))) = Inr t"
    and p: "is_placeholder t" by blast
  show ?thesis by (simp add: crit_step_def t p)
qed

lemma pickTopCriteria_unb:
  assumes "list_all unb_item xs"
  shows "pickTopCriteria rt xs ms = Inr []"
proof -
  have "efold (crit_step rt ms) [] xs = Inr []"
    by (rule efold_unchanged) (use assms in \<open>auto simp: list_all_iff crit_step_unb\<close>)
  then show ?thesis by (simp add: pickTopCriteria_def js_sort_def)
qed

lemma string_step_unb:
  assumes "unb_item x"
  shows "string_step deduped x = Inr deduped"
proof (cases "x = unb")
  case True
  then show ?thesis
    by (simp add: string_step_def unb_def trim_unbekannt is_placeholder_unbekannt)
next
  case False
  with assms obtain kvs where x: "x = JObj kvs" by (cases x) (auto simp: unb_item_def unb_fields_def)
  from text_of_unb[OF get_unb_item[OF assms, of "''text''"]]
  obtain t where t: "trim_method (js_or (get x ''text'') (JStr [])) = Inr t"
    and p: "is_placeholder t" by blast
  show ?thesis using t p by (simp add: string_step_def x)
qed

lemma pickTopStrings_unb:
  assumes "list_all unb_item xs"
  shows "pickTopStrings xs n = Inr []"
proof -
  have "efold string_step [] xs = Inr []"
    by (rule efold_unchanged) (use assms in \<open>auto simp: list_all_iff string_step_unb\<close>)
  then show ?thesis by (simp add: pickTopStrings_def)
qed

lemma filter_placeholders_empty:
  "list_all (\<lambda>e. is_placeholder (f e)) es \<Longrightarrow> filter (\<lambda>e. f e \<noteq> [] \<and> \<not> is_placeholder (f e)) es = []"
  by (induction es) auto

lemma pickTopRequirements_unb:
  assumes "list_all unb_item xs" and "unb_or_absent ms"
  shows "pickTopRequirements xs ms = Inr []"
proof -
  from text_of_unb[OF assms(2)] obtain p where p: "trim_method (js_or ms (JStr [])) = Inr p" by blast
  have "\<exists>es. emap req_entry_of (enumerate 0 xs) = Inr es \<and> list_all (\<lambda>e. is_placeholder (rq_text e)) es"
  proof (rule emap_exists)
    fix ix assume "ix \<in> set (enumerate 0 xs)"
    then have u: "unb_item (snd ix)" using assms(1) in_set_enumerate_snd by (fastforce simp: list_all_iff)
    from text_of_unb2[OF get_unb_item[OF u, of "''requirement_de''"] get_unb_item[OF u, of "''text''"]]
    obtain t where t: "trim_method (js_or (get (snd ix) ''requirement_de'') (js_or (get (snd ix) ''text'') (JStr []))) = Inr t"
      and pt: "is_placeholder t" by blast
    from text_of_unb3[OF get_unb_item[OF u, of "''explanation_de''"] get_unb_item[OF u, of "''explanation''"]
        get_unb_item[OF u, of "''description_de''"]]
    obtain d where d: "trim_method (js_or (get (snd ix) ''explanation_de'')
        (js_or (get (snd ix) ''explanation'') (js_or (get (snd ix) ''description_de'') (JStr [])))) = Inr d"
      by blast
    show "\<exists>e. req_entry_of ix = Inr e \<and> is_placeholder (rq_text e)"
      by (simp add: req_entry_of_def Let_def t d pt)
  qed
  then obtain es where es: "emap req_entry_of (enumerate 0 xs) = Inr es"
    and all: "list_all (\<lambda>e. is_placeholder (rq_text e)) es" by blast
  show ?thesis
    by (simp add: pickTopRequirements_def p es filter_placeholders_empty[OF all] js_sort_def)
qed

lemma validSteps_unb:
  assumes "list_all unb_item xs"
  shows "validSteps xs ms = Inr []"
proof -
  have "\<exists>es. emap (step_entry_of ms) (enumerate 0 xs) = Inr es \<and> list_all (\<lambda>e. is_placeholder (st_title_de e)) es"
  proof (rule emap_exists)
    fix ix assume "ix \<in> set (enumerate 0 xs)"
    then have u: "unb_item (snd ix)" using assms(1) in_set_enumerate_snd by (fastforce simp: list_all_iff)
    from text_of_unb[OF get_unb_item[OF u, of "''title_de''"]]
    obtain t where t: "trim_method (js_or (get (snd ix) ''title_de'') (JStr [])) = Inr t"
      and pt: "is_placeholder t" by blast
    from text_of_unb[OF get_unb_item[OF u, of "''description_de''"]]
    obtain d where d: "trim_method (js_or (get (snd ix) ''description_de'') (JStr [])) = Inr d" by blast
    from text_of_unb[OF get_unb_item[OF u, of "''days_de''"]]
    obtain y where y: "trim_method (js_or (get (snd ix) ''days_de'') (JStr [])) = Inr y" by blast
    show "\<exists>e. step_entry_of ms ix = Inr e \<and> is_placeholder (st_title_de e)"
      by (simp add: step_entry_of_def Let_def t d y pt)
  qed
  then obtain es where es: "emap (step_entry_of ms) (enumerate 0 xs) = Inr es"
    and all: "list_all (\<lambda>e. is_placeholder (st_title_de e)) es" by blast
  show ?thesis by (simp add: validSteps_def es filter_placeholders_empty[OF all])
qed

lemma evidence_unb:
  assumes "list_all unb_item xs"
  shows "emap (evidence_entry meta) xs = Inr (map (\<lambda>x. None) xs)"
proof (rule emap_all_Inr)
  fix x assume "x \<in> set xs"
  then have u: "unb_item x" using assms by (simp add: list_all_iff)
  from get_unb_item[OF u, of "''document_de''"] get_unb_item[OF u, of "''text''"]
  show "evidence_entry meta x = Inr None"
    by (auto simp: evidence_entry_def Let_def unb_or_absent_def unb_def js_or_def is_placeholder_unbekannt)
qed

lemma map_filter_all_None: "List.map_filter (\<lambda>x. x) (map (\<lambda>x. None) xs) = []"
  by (induction xs) simp_all

lemma buildTimelineSteps_no_steps:
  assumes v: "validSteps steps ms = Inr []"
      and d: "unb_or_absent (get tml ''submission_deadline_de'')"
  shows "buildTimelineSteps rt steps tml ms =
     Inr (if get tml ''submission_deadline_de'' = unb
          then [\<lparr>step = 1, title_de = ''Angebotsabgabe'',
                  description_de = ''Abgabefrist: unbekannt'', days_de = [],
                  ps_source_document = js_or (get tml ''source_document'') (js_or ms (JStr [])),
                  ps_source_chunk_id = JNull\<rparr>]
          else [])"
proof (cases "get tml ''submission_deadline_de'' = unb")
  case True
  then show ?thesis
    by (simp add: buildTimelineSteps_def v synthesize_submission_def unb_def buckets_def
        step_out_def synthesized_step_def enumerate_eq_zip)
next
  case False
  with d have "get tml ''submission_deadline_de'' = JUndefined" by (simp add: unb_or_absent_def)
  then show ?thesis
    by (simp add: buildTimelineSteps_def v synthesize_submission_def unb_def buckets_def)
qed


lemma or_default1:
  "unb_or_absent a \<Longrightarrow> js_or a d = (if a = unb then unb else d)"
  by (auto simp: unb_or_absent_def unb_def js_or_def)

lemma or_default2:
  "unb_or_absent a \<Longrightarrow> unb_or_absent b \<Longrightarrow>
   js_or a (js_or b d) = (if a = unb \<or> b = unb then unb else d)"
  by (auto simp: unb_or_absent_def unb_def js_or_def)

lemma or_default3:
  "unb_or_absent a \<Longrightarrow> unb_or_absent b \<Longrightarrow> unb_or_absent c \<Longrightarrow>
   js_or a (js_or b (js_or c d)) = (if a = unb \<or> b = unb \<or> c = unb then unb else d)"
  by (auto simp: unb_or_absent_def unb_def js_or_def)

text \<open>
  Claim C2, as stated, fails: in a bundle whose sections are records and lists with every
  field \<^verbatim>\<open>unbekannt\<close>, the title and the buyer are \<^verbatim>\<open>unbekannt\<close>, not the defaults, and the
  timeline holds the step synthesized from the placeholder deadline.
\<close>

theorem mapSummaryToTender_nested_placeholders:
  "map_sum (\<lambda>e. e) title (mapSummaryToTender integer_runtime (payload_of nested_placeholder_bundle))
     = Inr (JStr ''unbekannt'') \<and>
   map_sum (\<lambda>e. e) buyer (mapSummaryToTender integer_runtime (payload_of nested_placeholder_bundle))
     = Inr (JStr ''unbekannt'') \<and>
   map_sum (\<lambda>e. e) processSteps (mapSummaryToTender integer_runtime (payload_of nested_placeholder_bundle))
     = Inr [\<lparr>step = 1, title_de = ''Angebotsabgabe'',
              description_de = ''Abgabefrist: unbekannt'', days_de = [],
              ps_source_document = JStr ''unbekannt'', ps_source_chunk_id = JNull\<rparr>]"
  by code_simp

text \<open>
  Claim C2, amended. For a bundle in which every field is the string \<^verbatim>\<open>unbekannt\<close> (each
  section being that string, a record of such fields, or a list of such strings and
  records), \<^verbatim>\<open>mapSummaryToTender\<close> throws nothing and the lists of risks, requirements,
  evaluation criteria and missing evidence are empty. The timeline is empty unless
  \<^verbatim>\<open>timeline_milestones.submission_deadline_de\<close> is \<^verbatim>\<open>unbekannt\<close>, when it holds exactly the
  synthesized submission step. A scalar text field is not filtered: the title, the buyer
  and the scope of work are \<^verbatim>\<open>unbekannt\<close> as soon as one of their source fields is, and the
  defaults \<^verbatim>\<open>Missing Title\<close>, \<^verbatim>\<open>Missing Organization\<close> and the empty string appear when all
  their source fields are absent.
\<close>

theorem mapSummaryToTender_placeholders:
  assumes a: "unb_bundle (ui_json (summary payload))"
  shows "\<exists>t. mapSummaryToTender rt payload = Inr t \<and>
     legalRisksWithSource t = [] \<and> submissionWithSource t = [] \<and>
     evaluationCriteriaWithSource t = [] \<and> missingEvidenceWithSource t = [] \<and>
     processSteps t =
       (if field_of (ui_json (summary payload)) ''timeline_milestones'' ''submission_deadline_de'' = unb
        then [\<lparr>step = 1, title_de = ''Angebotsabgabe'',
                description_de = ''Abgabefrist: unbekannt'', days_de = [],
                ps_source_document =
                  (if field_of (ui_json (summary payload)) ''timeline_milestones'' ''source_document'' = unb
                    \<or> field_of (ui_json (summary payload)) ''meta'' ''source_document'' = unb
                   then unb else JStr []),
                ps_source_chunk_id = JNull\<rparr>]
        else []) \<and>
     title t =
       (if field_of (ui_json (summary payload)) ''meta'' ''tender_title'' = unb
         \<or> field_of (ui_json (summary payload)) ''executive_summary'' ''title_de'' = unb
         \<or> field_of (ui_json (summary payload)) ''meta'' ''tender_id'' = unb
        then unb else JStr ''Missing Title'') \<and>
     buyer t =
       (if field_of (ui_json (summary payload)) ''meta'' ''organization'' = unb
         \<or> field_of (ui_json (summary payload)) ''executive_summary'' ''organization_de'' = unb
        then unb else JStr ''Missing Organization'') \<and>
     scopeOfWork t =
       (if field_of (ui_json (summary payload)) ''executive_summary'' ''brief_description_de'' = unb
        then unb else JStr [])"
proof -
  define ui where "ui = ui_json (summary payload)"
  from a have b: "unb_bundle ui" by (simp add: ui_def)
  from b obtain secs where obj: "ui = JObj secs" by (cases ui) (auto simp: unb_bundle_def)
  have clone: "json_clone (js_or (ui_json (summary payload)) (JObj [])) = ui"
    using json_clone_unb_bundle[OF b] obj by (simp add: js_or_def ui_def)
  have gs: "get_strict ui ''meta'' = Inr (get ui ''meta'')"
    by (simp add: get_strict_def obj)
  have F: "unb_or_absent (get (get ui sec) k)" for sec k
    using field_of_bundle[OF b, of sec k] by (simp add: field_of_def)
  have items: "list_all unb_item (array_or_empty (get ui k))" for k
    by (rule items_of_bundle[OF b])
  have req: "pickTopRequirements (array_or_empty (get ui ''mandatory_requirements''))
               (get (get ui ''meta'') ''source_document'') = Inr []"
    by (rule pickTopRequirements_unb[OF items F])
  have risks: "pickTopRisks rt (array_or_empty (get ui ''risks''))
               (get (get ui ''meta'') ''source_document'') = Inr []"
    by (rule pickTopRisks_unb[OF items])
  have crit: "pickTopCriteria rt (array_or_empty (get ui ''evaluation_criteria''))
               (get (get ui ''meta'') ''source_document'') = Inr []"
    by (rule pickTopCriteria_unb[OF items])
  have strs: "pickTopStrings (array_or_empty (get ui k)) n = Inr []" for k n
    by (rule pickTopStrings_unb[OF items])
  have ev: "emap (evidence_entry (js_or (get ui ''meta'') (JObj [])))
              (array_or_empty (get ui ''missing_evidence_documents''))
            = Inr (map (\<lambda>x. None) (array_or_empty (get ui ''missing_evidence_documents'')))"
    by (rule evidence_unb[OF items])
  have tl: "buildTimelineSteps rt (array_or_empty (get ui ''process_steps''))
              (js_or (get ui ''timeline_milestones'') (JObj []))
              (get (get ui ''meta'') ''source_document'') =
     Inr (if get (get ui ''timeline_milestones'') ''submission_deadline_de'' = unb
          then [\<lparr>step = 1, title_de = ''Angebotsabgabe'',
                  description_de = ''Abgabefrist: unbekannt'', days_de = [],
                  ps_source_document =
                    (if get (get ui ''timeline_milestones'') ''source_document'' = unb
                      \<or> get (get ui ''meta'') ''source_document'' = unb then unb else JStr []),
                  ps_source_chunk_id = JNull\<rparr>]
          else [])"
  proof -
    have vs: "validSteps (array_or_empty (get ui ''process_steps''))
                (get (get ui ''meta'') ''source_document'') = Inr []"
      by (rule validSteps_unb[OF items])
    have dl: "unb_or_absent (get (js_or (get ui ''timeline_milestones'') (JObj []))
                ''submission_deadline_de'')"
      by (simp add: get_js_or_empty F)
    from buildTimelineSteps_no_steps[OF vs dl, of rt] show ?thesis
      by (simp add: get_js_or_empty or_default2[OF F F])
  qed
  have t3: "js_or (get (get ui ''meta'') ''tender_title'')
              (js_or (get (get ui ''executive_summary'') ''title_de'')
                 (js_or (get (get ui ''meta'') ''tender_id'') (JStr ''Missing Title''))) =
            (if get (get ui ''meta'') ''tender_title'' = unb
               \<or> get (get ui ''executive_summary'') ''title_de'' = unb
               \<or> get (get ui ''meta'') ''tender_id'' = unb then unb else JStr ''Missing Title'')"
    by (rule or_default3[OF F F F])
  have b2: "js_or (get (get ui ''meta'') ''organization'')
              (js_or (get (get ui ''executive_summary'') ''organization_de'')
                 (JStr ''Missing Organization'')) =
            (if get (get ui ''meta'') ''organization'' = unb
               \<or> get (get ui ''executive_summary'') ''organization_de'' = unb
             then unb else JStr ''Missing Organization'')"
    by (rule or_default2[OF F F])
  have s1: "js_or (get (get ui ''executive_summary'') ''brief_description_de'') (JStr []) =
            (if get (get ui ''executive_summary'') ''brief_description_de'' = unb then unb else JStr [])"
    by (rule or_default1[OF F])
  show ?thesis
    unfolding mapSummaryToTender_def clone
    by (simp add: gs Let_def get_js_or_empty req risks crit strs ev tl map_filter_all_None
        t3 b2 s1 field_of_def ui_def[symmetric])
qed


theorem mapSummaryToTender_placeholders_witness:
  "map_sum (\<lambda>e. e) title (mapSummaryToTender integer_runtime (payload_of flat_placeholder_bundle))
     = Inr (JStr ''Missing Title'') \<and>
   map_sum (\<lambda>e. e) buyer (mapSummaryToTender integer_runtime (payload_of flat_placeholder_bundle))
     = Inr (JStr ''Missing Organization'') \<and>
   map_sum (\<lambda>e. e) scopeOfWork (mapSummaryToTender integer_runtime (payload_of flat_placeholder_bundle))
     = Inr (JStr []) \<and>
   map_sum (\<lambda>e. e) processSteps (mapSummaryToTender integer_runtime (payload_of flat_placeholder_bundle))
     = Inr [] \<and>
   map_sum (\<lambda>e. e) legalRisksWithSource
     (mapSummaryToTender integer_runtime (payload_of flat_placeholder_bundle)) = Inr []"
proof -
  have u: "unb_bundle (ui_json (summary (payload_of flat_placeholder_bundle)))"
    by (simp add: payload_of_def flat_placeholder_bundle_def unb_bundle_def unb_section_def
        unb_item_def)
  from mapSummaryToTender_placeholders[OF u, of integer_runtime]
  show ?thesis
    by (auto simp: field_of_def payload_of_def flat_placeholder_bundle_def unb_def)
qed


section \<open>Failure on a text that is not a string\<close>

text \<open>
  Claim C8 fails on the code. \<^verbatim>\<open>pct(0,0)\<close> is 0, but the selectors call \<^verbatim>\<open>trim\<close> on whatever
  truthy value the text field holds: a risk whose \<^verbatim>\<open>risk_de\<close> is the number 42 makes
  \<^verbatim>\<open>pickTopRisks\<close>, and with it \<^verbatim>\<open>mapSummaryToTender\<close>, throw a \<^verbatim>\<open>TypeError\<close>.
\<close>

theorem selectors_throw_on_numeric_text:
  "pct (Fin 0) (Fin 0) = Fin 0 \<and>
   pickTopRisks rt [JObj [(''risk_de'', JNum (Fin 42)), (''severity'', JStr ''high'')]] metaSource
     = Inl TypeError \<and>
   mapSummaryToTender rt
     (payload_of (JObj [(''risks'',
        JArr [JObj [(''risk_de'', JNum (Fin 42)), (''severity'', JStr ''high'')]])]))
     = Inl TypeError"
proof -
  have a: "pct (Fin 0) (Fin 0) = Fin 0" by (simp add: pct_def)
  have b: "pickTopRisks rt [JObj [(''risk_de'', JNum (Fin 42)), (''severity'', JStr ''high'')]] metaSource
     = Inl TypeError"
    by (simp add: pickTopRisks_def risks_deduped_def risk_step_def js_or_def enumerate_eq_zip)
  have c: "mapSummaryToTender rt
     (payload_of (JObj [(''risks'',
        JArr [JObj [(''risk_de'', JNum (Fin 42)), (''severity'', JStr ''high'')]])]))
     = Inl TypeError"
    by code_simp
  from a b c show ?thesis by simp
qed

end

